theory Spec2Isabelle
  imports Main "HOL-Library.AList"
begin

section \<open>Errors\<close>

text \<open>
  Every \<^verbatim>\<open>throw new Error(...)\<close> of the source is one of the first four values, named as
  the specification's error taxonomy names them; \<open>TypeError\<close> is the error the JavaScript
  runtime itself raises (reading a property of \<^verbatim>\<open>undefined\<close>, calling a non-function).
  A function that can throw returns the error together with the state as it stands at the
  throw, since the fields assigned before the throw keep their new values.
\<close>

datatype error =
    ConfigurationError
  | RenderContractViolation
  | AmbiguousTargetError
  | DuplicateChildTag
  | TypeError

section \<open>The refresh scheduler (queueRefresh)\<close>

text \<open>
  The closure \<^verbatim>\<open>function() { self._refresh(); }\<close> is \<open>RefreshOf n\<close>, with \<open>n\<close> the
  \<^verbatim>\<open>baseClassInstance\<close> of the instance it closes over. The two arrays of the scheduler
  hold JavaScript values: \<open>Num\<close> a number, \<open>Fn\<close> a function object.
\<close>

datatype closure = RefreshOf nat

datatype jsitem = Num nat | Fn closure

record refreshData =
  instanceId :: nat
  refreshFn :: closure

text \<open>
  \<open>timers\<close> holds the pending \<^verbatim>\<open>setTimeout\<close> callbacks of \<open>queueRefresh\<close>, oldest
  first, each as the \<^verbatim>\<open>refreshCount\<close> it captured.
\<close>

record scheduler =
  refreshQueue :: "jsitem list"
  uniqueIndex :: "jsitem list"
  timers :: "nat list"

definition emptyScheduler :: scheduler where
  "emptyScheduler = \<lparr>refreshQueue = [], uniqueIndex = [], timers = []\<rparr>"

text \<open>\<^verbatim>\<open>Array.prototype.indexOf\<close>: the first index holding a strictly equal value, or -1.\<close>

fun indexOf :: "'a list \<Rightarrow> 'a \<Rightarrow> int" where
  "indexOf [] x = - 1"
| "indexOf (y # ys) x =
     (if y = x then 0 else (let r = indexOf ys x in if r = - 1 then - 1 else r + 1))"

definition queueRefresh :: "refreshData \<Rightarrow> scheduler \<Rightarrow> scheduler" where
  "queueRefresh rd q =
     (let q1 = (if indexOf (refreshQueue q) (Num (instanceId rd)) = - 1
                then q\<lparr>uniqueIndex := uniqueIndex q @ [Num (instanceId rd)],
                        refreshQueue := refreshQueue q @ [Fn (refreshFn rd)]\<rparr>
                else q);
          refreshCount = length (refreshQueue q1)
      in q1\<lparr>timers := timers q1 @ [refreshCount]\<rparr>)"

text \<open>
  \<^verbatim>\<open>var i = refreshQueue.length; while (i--) refreshQueue.pop()();\<close>
  \<open>call\<close> runs one popped value on the world \<open>'w\<close> the closures act on; an exception
  of a callee leaves the loop with the rest of the queue in place.
\<close>

fun flushLoop ::
  "(jsitem \<Rightarrow> 'w \<Rightarrow> error option \<times> 'w) \<Rightarrow> nat \<Rightarrow> jsitem list \<Rightarrow> 'w
     \<Rightarrow> error option \<times> jsitem list \<times> 'w" where
  "flushLoop call 0 rq w = (None, rq, w)"
| "flushLoop call (Suc i) rq w =
     (if rq = [] then (Some TypeError, rq, w)
      else (case call (last rq) w of
              (Some e, w') \<Rightarrow> (Some e, butlast rq, w')
            | (None, w') \<Rightarrow> flushLoop call i (butlast rq) w'))"

text \<open>The oldest pending timer of \<open>queueRefresh\<close> fires.\<close>

definition timerFires ::
  "(jsitem \<Rightarrow> 'w \<Rightarrow> error option \<times> 'w) \<Rightarrow> scheduler \<Rightarrow> 'w \<Rightarrow> error option \<times> scheduler \<times> 'w" where
  "timerFires call q w =
     (case timers q of
        [] \<Rightarrow> (None, q, w)
      | refreshCount # rest \<Rightarrow>
          (let q1 = q\<lparr>timers := rest\<rparr> in
           if refreshCount = length (refreshQueue q1)
           then (case flushLoop call (length (refreshQueue q1)) (refreshQueue q1) w of
                   (Some e, rq, w') \<Rightarrow> (Some e, q1\<lparr>refreshQueue := rq\<rparr>, w')
                 | (None, rq, w') \<Rightarrow> (None, q1\<lparr>refreshQueue := rq, uniqueIndex := []\<rparr>, w'))
           else (None, q1, w)))"

text \<open>A world that only records which values the flush called, in call order.\<close>

definition recordCall :: "jsitem \<Rightarrow> jsitem list \<Rightarrow> error option \<times> jsitem list" where
  "recordCall f called = (case f of Fn c \<Rightarrow> (None, called @ [f]) | Num n \<Rightarrow> (Some TypeError, called))"

section \<open>Element trees and jQuery collections\<close>

text \<open>
  A DOM node is an element (its identity, tag, class names, children) or a text node.
  A jQuery object is a JavaScript object of its own (\<open>ref\<close>, its identity) holding element
  references (\<open>nodes\<close>). \<open>jsref\<close> are the values a variable such as \<^verbatim>\<open>this.jqDom\<close> can
  hold: \<^verbatim>\<open>null\<close>, \<^verbatim>\<open>undefined\<close>, a jQuery object, or any other value (\<open>JOther\<close>).

  The DOM facade is an external collaborator. Trees are values here: an operation that
  mutates a tree in the source returns the new tree.
\<close>

datatype dom = Element nat string "string list" "dom list" | TextNode string

record jq =
  ref :: nat
  nodes :: "dom list"

datatype jsref = JNull | JUndefined | JOther | JQ jq

fun isElement :: "dom \<Rightarrow> bool" where
  "isElement (Element i t cs kids) = True"
| "isElement (TextNode s) = False"

fun childrenOf :: "dom \<Rightarrow> dom list" where
  "childrenOf (Element i t cs kids) = kids"
| "childrenOf (TextNode s) = []"

text \<open>A node and everything below it, in document order.\<close>

fun subtrees :: "dom \<Rightarrow> dom list" where
  "subtrees (Element i t cs kids) = Element i t cs kids # concat (map subtrees kids)"
| "subtrees (TextNode s) = [TextNode s]"

text \<open>
  \<^verbatim>\<open>jq.find(selector)\<close>: the elements strictly below the members of the collection that
  the selector matches, in document order. The selector engine is a parameter
  \<open>m selector element\<close>.
\<close>

type_synonym matcher = "string \<Rightarrow> dom \<Rightarrow> bool"

definition jqFind :: "matcher \<Rightarrow> string \<Rightarrow> dom list \<Rightarrow> dom list" where
  "jqFind m sel roots =
     filter (\<lambda>d. isElement d \<and> m sel d) (concat (map (\<lambda>r. concat (map subtrees (childrenOf r))) roots))"

text \<open>\<^verbatim>\<open>jq.find(selector)[0]\<close>: the first match, \<^verbatim>\<open>undefined\<close> (\<open>None\<close>) when there is none.\<close>

definition firstMatch :: "matcher \<Rightarrow> dom list \<Rightarrow> string \<Rightarrow> dom option" where
  "firstMatch m roots sel = (case jqFind m sel roots of [] \<Rightarrow> None | d # ds \<Rightarrow> Some d)"

text \<open>
  \<^verbatim>\<open>node.contains(other)\<close>: \<open>other\<close> is the node itself or below it; \<^verbatim>\<open>false\<close> for
  \<^verbatim>\<open>undefined\<close>.
\<close>

definition domContains :: "dom \<Rightarrow> dom option \<Rightarrow> bool" where
  "domContains chk other = (case other of None \<Rightarrow> False | Some d \<Rightarrow> d \<in> set (subtrees chk))"

text \<open>A selector engine for witnesses: \<open>.name\<close> matches by class, anything else by tag.\<close>

fun classOrTag :: matcher where
  "classOrTag sel (Element i t cs kids) =
     (case sel of [] \<Rightarrow> False | c # name \<Rightarrow> if c = CHR ''.'' then name \<in> set cs else sel = t)"
| "classOrTag sel (TextNode s) = False"

fun nodeId :: "dom \<Rightarrow> nat option" where
  "nodeId (Element i t cs kids) = Some i"
| "nodeId (TextNode s) = None"

text \<open>
  \<open>replaceNode i repl d\<close>: the tree \<open>d\<close> with the element of identity \<open>i\<close> (below the
  root) replaced by the nodes \<open>repl\<close>; \<open>replaceInAll\<close> does it in every member of a list.
\<close>

fun replaceNode :: "nat \<Rightarrow> dom list \<Rightarrow> dom \<Rightarrow> dom"
and replaceInAll :: "nat \<Rightarrow> dom list \<Rightarrow> dom list \<Rightarrow> dom list" where
  "replaceNode i repl (Element j t cs kids) = Element j t cs (replaceInAll i repl kids)"
| "replaceNode i repl (TextNode s) = TextNode s"
| "replaceInAll i repl [] = []"
| "replaceInAll i repl (k # ks) =
     (if nodeId k = Some i then repl @ replaceInAll i repl ks
      else replaceNode i repl k # replaceInAll i repl ks)"

section \<open>Partial refresh: the selector list\<close>

text \<open>
  \<^verbatim>\<open>this._refreshList.filter(function(item, pos) { return self._refreshList.indexOf(item) == pos; })\<close>
\<close>

definition dedupe :: "string list \<Rightarrow> string list" where
  "dedupe l = map snd (filter (\<lambda>(pos, item). indexOf l item = int pos) (enumerate 0 l))"

text \<open>\<^verbatim>\<open>list.splice(a, 1)\<close>\<close>

definition spliceOne :: "nat \<Rightarrow> 'a list \<Rightarrow> 'a list" where
  "spliceOne a l = take a l @ drop (Suc a) l"

text \<open>
  The inner loop of the containment check, \<^verbatim>\<open>var b = list.length; while (b--) { ... }\<close>,
  for the selector at index \<open>a\<close> whose first match is \<open>domCurr\<close>: \<open>Inr True\<close> when it reaches
  the \<^verbatim>\<open>splice\<close> and \<^verbatim>\<open>break\<close>, \<open>Inr False\<close> when it runs out, \<open>Inl TypeError\<close> when
  \<^verbatim>\<open>domCheck\<close> is \<^verbatim>\<open>undefined\<close> at \<^verbatim>\<open>domCheck.contains\<close>.
\<close>

fun containedInOther ::
  "matcher \<Rightarrow> dom list \<Rightarrow> string list \<Rightarrow> nat \<Rightarrow> dom option \<Rightarrow> nat \<Rightarrow> error + bool" where
  "containedInOther m cur l a domCurr 0 = Inr False"
| "containedInOther m cur l a domCurr (Suc b) =
     (if a \<noteq> b
      then (case firstMatch m cur (l ! b) of
              None \<Rightarrow> Inl TypeError
            | Some domCheck \<Rightarrow>
                if domContains domCheck domCurr then Inr True
                else containedInOther m cur l a domCurr b)
      else containedInOther m cur l a domCurr b)"

text \<open>
  The outer loop, \<^verbatim>\<open>var a = list.length; while (a--) { ... }\<close>. It returns the list as it
  stands when the loop ends or throws. Both loops only read indices below the length of
  the list.
\<close>

fun pruneLoop :: "matcher \<Rightarrow> dom list \<Rightarrow> string list \<Rightarrow> nat \<Rightarrow> error option \<times> string list" where
  "pruneLoop m cur l 0 = (None, l)"
| "pruneLoop m cur l (Suc a) =
     (case containedInOther m cur l a (firstMatch m cur (l ! a)) (length l) of
        Inl e \<Rightarrow> (Some e, l)
      | Inr True \<Rightarrow> pruneLoop m cur (spliceOne a l) a
      | Inr False \<Rightarrow> pruneLoop m cur l a)"

text \<open>\<^verbatim>\<open>if (this._refreshList.length > 1) { ... }\<close>\<close>

definition pruneSelectors :: "matcher \<Rightarrow> dom list \<Rightarrow> string list \<Rightarrow> error option \<times> string list" where
  "pruneSelectors m cur l = (if length l > 1 then pruneLoop m cur l (length l) else (None, l))"

text \<open>
  The patch loop, \<^verbatim>\<open>var i = list.length; while (i--) { ... jqOld.replaceWith(jqNew); }\<close>,
  over the selectors still to visit (last of the list first, so the caller passes the
  list reversed). It returns the current tree, the new tree and the selectors whose
  \<^verbatim>\<open>replaceWith\<close> was reached, in call order. \<^verbatim>\<open>replaceWith\<close> on an empty \<open>jqOld\<close> does
  nothing; otherwise the new element moves out of the new tree into the place of the old
  one, and an empty \<open>jqNew\<close> leaves the old element removed (as jQuery does from 1.10 on).
\<close>

fun patchLoop ::
  "matcher \<Rightarrow> string list \<Rightarrow> dom list \<Rightarrow> dom list \<Rightarrow> string list
     \<Rightarrow> error option \<times> dom list \<times> dom list \<times> string list" where
  "patchLoop m [] cur new patched = (None, cur, new, patched)"
| "patchLoop m (sel # rest) cur new patched =
     (let jqOld = jqFind m sel cur; jqNew = jqFind m sel new in
      if length jqOld > 1 \<or> length jqNew > 1 then (Some AmbiguousTargetError, cur, new, patched)
      else (case jqOld of
              [] \<Rightarrow> patchLoop m rest cur new (patched @ [sel])
            | old # xs \<Rightarrow>
                (case nodeId old of
                   None \<Rightarrow> patchLoop m rest cur new (patched @ [sel])
                 | Some i \<Rightarrow>
                     patchLoop m rest
                       (map (replaceNode i jqNew) cur)
                       (case jqNew of [] \<Rightarrow> new
                        | n # ys \<Rightarrow> (case nodeId n of None \<Rightarrow> new
                                     | Some j \<Rightarrow> map (replaceNode j []) new))
                       (patched @ [sel]))))"

section \<open>The component instance\<close>

text \<open>
  One entry of \<^verbatim>\<open>initList\<close>. \<open>methodName\<close> is the source's \<^verbatim>\<open>method\<close>; \<open>preventRender\<close>
  is \<^verbatim>\<open>preventRender == true\<close>; \<open>condition\<close> is \<open>None\<close> when the entry has no
  \<^verbatim>\<open>condition\<close> function and otherwise what \<^verbatim>\<open>condition() == false\<close> negated gives.
\<close>

record initEntry =
  methodName :: string
  preventRender :: bool
  condition :: "bool option"

text \<open>A UI binding is \<^verbatim>\<open>true\<close> or an array of selectors.\<close>

datatype uiBinding = RefreshAll | RefreshSelectors "string list"

record dataBinding =
  methods :: "string list"
  bindDelayRefresh :: bool

text \<open>\<^verbatim>\<open>this._refreshList\<close>: the boolean \<^verbatim>\<open>true\<close> or an array of selectors.\<close>

datatype refreshState = Full | Selectors "string list"

text \<open>
  The \<^verbatim>\<open>Promise.all\<close> groups an instance has started and whose continuation has not run:
  the active and the passive group of \<open>init\<close>, and a group of \<^verbatim>\<open>_fetch\<close> with the
  \<^verbatim>\<open>loadMask\<close> its continuation captured.
\<close>

datatype group = InitActive | InitPassive | FetchGroup bool

text \<open>
  What a child registration holds: a component (by its instance number) or an array of
  components (the array's own identity first).
\<close>

datatype registered = Component nat | Repetition nat "nat list"

text \<open>
  Calls out of the engine, in call order: a fetch or init method invoked by a promise
  executor, the template engine evaluating a template, the load mask callbacks, the hooks
  \<^verbatim>\<open>_init\<close> and \<^verbatim>\<open>_postRefresh\<close>, the old root replaced in the page, the
  \<^verbatim>\<open>replaceWith\<close> of a partial refresh reached for a selector, a child destroyed, and the
  owning observable removed.
  The callees are user code: they are taken to return normally and to leave the fields of
  the engine alone. Console output is not recorded.
\<close>

datatype effect =
    Invoked string
  | TemplateEvaluated string
  | ShowLoadMask
  | HideLoadMask
  | InitHook
  | PostRefresh
  | RootReplaced
  | ElementReplaced string
  | ChildDestroyed registered
  | ObservableRemoved

text \<open>
  The fields of an instance, under the source's names (\<open>refreshList\<close> is
  \<^verbatim>\<open>_refreshList\<close>, \<open>cleanUpChildren\<close> is \<^verbatim>\<open>_cleanUpChildren\<close>, \<open>dataRef\<close> is the object
  \<^verbatim>\<open>_data\<close> refers to). \<open>callables\<close> lists the member names \<open>n\<close> for which
  \<^verbatim>\<open>typeof this[n] === "function"\<close>; \<open>overridesRender\<close> says whether the component class
  replaces the base \<^verbatim>\<open>_render\<close>. The last four fields are bookkeeping of the model: the
  promise groups not yet settled, whether the owning observable is still attached, the
  next unused jQuery object identity, and the calls made so far.
\<close>

record component =
  className :: string
  baseClassInstance :: nat
  jqDom :: jsref
  initialized :: bool
  initList :: "initEntry list"
  pendingInit :: bool
  pendingFetchCount :: int
  initRendered :: bool
  delayRefresh :: bool
  cleanUpChildren :: "nat option"
  childComponents :: "(string \<times> registered list) list"
  refreshList :: refreshState
  pendingRefresh :: bool
  templates :: "(string \<times> string) list"
  loadingTemplate :: string
  uiBindings :: "(string \<times> uiBinding) list"
  dataBindings :: "(string \<times> dataBinding) list"
  dataRef :: nat
  callables :: "string list"
  overridesRender :: bool
  groups :: "group list"
  observing :: bool
  nextRef :: nat
  trace :: "effect list"

definition logEffect :: "effect \<Rightarrow> component \<Rightarrow> component" where
  "logEffect x c = c\<lparr>trace := trace c @ [x]\<rparr>"

definition selfRequest :: "component \<Rightarrow> refreshData" where
  "selfRequest c = \<lparr>instanceId = baseClassInstance c, refreshFn = RefreshOf (baseClassInstance c)\<rparr>"

text \<open>\<^verbatim>\<open>this._refreshList === true || this._refreshList.length > 0\<close>\<close>

fun refreshPending :: "refreshState \<Rightarrow> bool" where
  "refreshPending Full = True"
| "refreshPending (Selectors l) = (l \<noteq> [])"

subsection \<open>The change handler of the owning observable\<close>

text \<open>
  A change record; only its path is read. The regular expression engine is a parameter
  \<open>rx pattern path\<close> (\<^verbatim>\<open>new RegExp(pattern).test(path)\<close>, for a well-formed pattern).
\<close>

record change =
  currentPath :: string

type_synonym regexp = "string \<Rightarrow> string \<Rightarrow> bool"

text \<open>\<^verbatim>\<open>s.substring(a, b)\<close>: the two indices are swapped when \<open>a > b\<close>.\<close>

definition substring :: "string \<Rightarrow> nat \<Rightarrow> nat \<Rightarrow> string" where
  "substring s a b = take (max a b - min a b) (drop (min a b) s)"

text \<open>
  \<^verbatim>\<open>key.charAt(0) === "/" && key.charAt(key.length-1) === "/"\<close>, and then the test of the
  pattern between the slashes; a binding matches when its key equals the path or the
  pattern matches it.
\<close>

definition regExpBinding :: "regexp \<Rightarrow> string \<Rightarrow> string \<Rightarrow> bool" where
  "regExpBinding rx key path =
     (if key \<noteq> [] \<and> hd key = CHR ''/'' \<and> last key = CHR ''/''
      then rx (substring key 1 (length key - 1)) path else False)"

definition bindingMatches :: "regexp \<Rightarrow> string \<Rightarrow> string \<Rightarrow> bool" where
  "bindingMatches rx key path = (key = path \<or> regExpBinding rx key path)"

text \<open>The body of \<^verbatim>\<open>for (var uiBinding in self.uiBindings)\<close>, on \<^verbatim>\<open>self._refreshList\<close>.\<close>

fun uiStep :: "regexp \<Rightarrow> string \<Rightarrow> refreshState \<Rightarrow> string \<times> uiBinding \<Rightarrow> refreshState" where
  "uiStep rx path Full (key, b) = Full"
| "uiStep rx path (Selectors l) (key, b) =
     (if bindingMatches rx key path
      then (case b of RefreshAll \<Rightarrow> Full | RefreshSelectors sels \<Rightarrow> Selectors (l @ sels))
      else Selectors l)"

text \<open>
  The body of \<^verbatim>\<open>for (var dataBinding in self.dataBindings)\<close>, on the local variables
  \<^verbatim>\<open>delayRefresh\<close> and \<^verbatim>\<open>fetchList\<close>.
\<close>

definition dataStep ::
  "regexp \<Rightarrow> string \<Rightarrow> bool \<times> string list \<Rightarrow> string \<times> dataBinding \<Rightarrow> bool \<times> string list" where
  "dataStep rx path acc kb =
     (if bindingMatches rx (fst kb) path
      then (fst acc \<or> bindDelayRefresh (snd kb), snd acc @ methods (snd kb))
      else acc)"

text \<open>One round of \<^verbatim>\<open>while (i--)\<close> over the changes: all UI bindings, then all data bindings.\<close>

definition changeStep ::
  "regexp \<Rightarrow> component \<Rightarrow> refreshState \<times> bool \<times> string list \<Rightarrow> change
     \<Rightarrow> refreshState \<times> bool \<times> string list" where
  "changeStep rx c acc ch =
     (foldl (uiStep rx (currentPath ch)) (fst acc) (uiBindings c),
      foldl (dataStep rx (currentPath ch)) (snd acc) (dataBindings c))"

text \<open>
  \<^verbatim>\<open>_fetch(delayRefresh, fetchList)\<close> (the leading underscore of a private method is
  written \<open>p_\<close>). Each promise executor runs at once and calls its method when the
  instance has it; the group's continuation runs later (\<open>settleGroup\<close>).
\<close>

definition p_fetch :: "bool \<Rightarrow> string list \<Rightarrow> component \<Rightarrow> component" where
  "p_fetch delay fetchList c =
     (let loadMask = (delay \<and> fetchList \<noteq> []);
          c1 = (if loadMask then logEffect ShowLoadMask (c\<lparr>delayRefresh := delay\<rparr>) else c)
      in if fetchList \<noteq> []
         then c1\<lparr>pendingFetchCount := pendingFetchCount c1 + 1,
                 trace := trace c1 @ map Invoked (filter (\<lambda>n. n \<in> set (callables c1)) (rev fetchList)),
                 groups := groups c1 @ [FetchGroup loadMask]\<rparr>
         else c1)"

text \<open>The handler passed to \<^verbatim>\<open>ObservableSlim.create(this._data, false, ...)\<close>.\<close>

definition onChange :: "regexp \<Rightarrow> change list \<Rightarrow> component \<times> scheduler \<Rightarrow> component \<times> scheduler" where
  "onChange rx changes cq =
     (let c = fst cq; q = snd cq in
      if initialized c
      then (let acc = foldl (changeStep rx c) (refreshList c, False, []) (rev changes);
                c1 = c\<lparr>refreshList := fst acc\<rparr>;
                c2 = p_fetch (fst (snd acc)) (snd (snd acc)) c1
            in if refreshPending (refreshList c2)
               then (c2\<lparr>pendingRefresh := True\<rparr>, queueRefresh (selfRequest c2) q)
               else (c2, q))
      else (c, q))"

subsection \<open>init and the promise continuations\<close>

definition missingBindingMethod :: "component \<Rightarrow> bool" where
  "missingBindingMethod c =
     (\<exists>kb \<in> set (dataBindings c). \<exists>n \<in> set (methods (snd kb)). n \<notin> set (callables c))"

definition init :: "component \<Rightarrow> error option \<times> component" where
  "init c =
     (if missingBindingMethod c then (Some ConfigurationError, c)
      else (let entries = filter (\<lambda>e. condition e \<noteq> Some False) (initList c);
                listActivePromises = filter preventRender entries;
                listPassivePromises = filter (\<lambda>e. \<not> preventRender e) entries;
                c0 = c\<lparr>trace := trace c @
                       map Invoked (filter (\<lambda>n. n \<in> set (callables c)) (map methodName entries))\<rparr>;
                c1 = (if listActivePromises \<noteq> []
                      then c0\<lparr>pendingFetchCount := pendingFetchCount c0 + 1,
                              pendingInit := True,
                              groups := groups c0 @ [InitActive]\<rparr>
                      else (let c' = c0\<lparr>initialized := True\<rparr>
                            in if ''_init'' \<in> set (callables c') then logEffect InitHook c' else c'));
                c2 = (if listPassivePromises \<noteq> []
                      then c1\<lparr>pendingFetchCount := pendingFetchCount c1 + 1,
                              groups := groups c1 @ [InitPassive]\<rparr>
                      else c1)
            in (None, c2)))"

text \<open>
  The continuation of a group. \<open>ok\<close> says that every promise of the group resolved, so
  the \<^verbatim>\<open>then\<close> callback runs; otherwise only the \<^verbatim>\<open>catch\<close> callbacks run, which log to
  the console.
\<close>

definition settleGroup :: "group \<Rightarrow> bool \<Rightarrow> component \<times> scheduler \<Rightarrow> component \<times> scheduler" where
  "settleGroup g ok cq =
     (let c = fst cq; q = snd cq in
      if \<not> ok then (c, q)
      else (case g of
              InitActive \<Rightarrow>
                (let c1 = c\<lparr>initialized := True, pendingInit := False,
                            refreshList := Full, pendingRefresh := True\<rparr>;
                     q1 = queueRefresh (selfRequest c1) q;
                     c2 = (if ''_init'' \<in> set (callables c1) then logEffect InitHook c1 else c1)
                 in (c2\<lparr>pendingFetchCount := pendingFetchCount c2 - 1\<rparr>, q1))
            | InitPassive \<Rightarrow> (c\<lparr>pendingFetchCount := pendingFetchCount c - 1\<rparr>, q)
            | FetchGroup loadMask \<Rightarrow>
                (let c1 = c\<lparr>delayRefresh := False\<rparr>;
                     c2 = (if loadMask then logEffect HideLoadMask c1 else c1);
                     q1 = (if refreshPending (refreshList c2)
                           then queueRefresh (selfRequest c2) q else q)
                 in (c2\<lparr>pendingFetchCount := pendingFetchCount c2 - 1\<rparr>, q1))))"

section \<open>Rendering\<close>

text \<open>
  What one call into the engine gets from its collaborators: the value a custom
  \<^verbatim>\<open>_renderLoading()\<close> returns (read only when the instance has that method), the value
  an overriding \<^verbatim>\<open>_render()\<close> returns, the nodes \<^verbatim>\<open>$(Mustache.render(template, data))\<close>
  yields for a template, the outcome of \<^verbatim>\<open>_insertChildren(jqDom)\<close> (an error, or the
  members of the collection after the children were spliced in together with the list of
  inserted children), the selector engine, and the number \<^verbatim>\<open>Math.random\<close> gives the
  orphan sweep. \<^verbatim>\<open>_insertChildren\<close> renders other instances into the tree; it does not
  assign a field of the instance it is called on, so it is a parameter here and every
  theorem below holds for each of its outcomes.
\<close>

record inserted =
  compRef :: nat
  elmt :: jsref

record env =
  renderLoadingResult :: jsref
  renderResult :: jsref
  templateEngine :: "string \<Rightarrow> dom list"
  insertChildren :: "jq \<Rightarrow> error + (dom list \<times> inserted list)"
  matches :: matcher
  randomToken :: nat

text \<open>
  \<^verbatim>\<open>$(Mustache.render(template, ...))\<close>: the template engine runs and a new jQuery object
  is made.
\<close>

definition jqueryOf :: "env \<Rightarrow> string \<Rightarrow> component \<Rightarrow> jsref \<times> component" where
  "jqueryOf e template c =
     (JQ \<lparr>ref = nextRef c, nodes = templateEngine e template\<rparr>,
      c\<lparr>nextRef := Suc (nextRef c), trace := trace c @ [TemplateEvaluated template]\<rparr>)"

text \<open>
  \<^verbatim>\<open>_render()\<close>: the override of the component class, or the base method, which renders
  the first template (reading a template of an empty \<^verbatim>\<open>templates\<close> is a TypeError).
\<close>

definition p_render :: "env \<Rightarrow> component \<Rightarrow> (error + jsref) \<times> component" where
  "p_render e c =
     (if overridesRender c then (Inr (renderResult e), c)
      else (case templates c of
              [] \<Rightarrow> (Inl TypeError, c)
            | (tplName, template) # rest \<Rightarrow>
                (case jqueryOf e template c of (v, c1) \<Rightarrow> (Inr v, c1))))"

text \<open>
  \<^verbatim>\<open>if (!(jqDom.length > 0 && jqDom instanceof $ && jqDom[0] instanceof HTMLElement)) throw ...\<close>
  \<open>None\<close> when the check passes.
\<close>

definition validateRender :: "jsref \<Rightarrow> error option" where
  "validateRender v =
     (case v of
        JNull \<Rightarrow> Some TypeError
      | JUndefined \<Rightarrow> Some TypeError
      | JOther \<Rightarrow> Some RenderContractViolation
      | JQ j \<Rightarrow> (case nodes j of
                   [] \<Rightarrow> Some RenderContractViolation
                 | d # ds \<Rightarrow> if isElement d then None else Some RenderContractViolation))"

text \<open>The loading display of \<^verbatim>\<open>render\<close> and \<^verbatim>\<open>_renderWithChildren\<close>.\<close>

definition loadingView :: "env \<Rightarrow> component \<Rightarrow> jsref \<times> component" where
  "loadingView e c =
     (if ''_renderLoading'' \<in> set (callables c) then (renderLoadingResult e, c)
      else jqueryOf e (loadingTemplate c) c)"

text \<open>\<^verbatim>\<open>if (this.initialized == false && this.pendingInit == false) this.init();\<close>\<close>

definition initIfNeeded :: "component \<Rightarrow> error option \<times> component" where
  "initIfNeeded c = (if \<not> initialized c \<and> \<not> pendingInit c then init c else (None, c))"

text \<open>
  The validated render and the insertion of the children, shared by \<^verbatim>\<open>render\<close> and
  \<^verbatim>\<open>_renderWithChildren\<close>.
\<close>

definition renderValidated ::
  "env \<Rightarrow> component \<Rightarrow> (error + jsref \<times> inserted list) \<times> component" where
  "renderValidated e c =
     (case p_render e c of
        (Inl err, c1) \<Rightarrow> (Inl err, c1)
      | (Inr v, c1) \<Rightarrow>
          (case validateRender v of
             Some err \<Rightarrow> (Inl err, c1)
           | None \<Rightarrow>
               (case v of
                  JQ j \<Rightarrow> (case insertChildren e j of
                             Inl err \<Rightarrow> (Inl err, c1)
                           | Inr (spliced, ins) \<Rightarrow> (Inr (JQ (j\<lparr>nodes := spliced\<rparr>), ins), c1))
                | _ \<Rightarrow> (Inl TypeError, c1))))"

definition render :: "env \<Rightarrow> component \<Rightarrow> (error + jsref) \<times> component" where
  "render e c =
     (case initIfNeeded c of
        (Some err, c1) \<Rightarrow> (Inl err, c1)
      | (None, c1) \<Rightarrow>
          if \<not> initialized c1 \<and> pendingInit c1
          then (case loadingView e c1 of (v, c2) \<Rightarrow> (Inr v, c2\<lparr>jqDom := v\<rparr>))
          else if refreshList c1 = Selectors [] \<and> initRendered c1
          then (Inr (jqDom c1), c1\<lparr>jqDom := jqDom c1\<rparr>)
          else (case renderValidated e c1 of
                  (Inl err, c2) \<Rightarrow> (Inl err, c2)
                | (Inr (v, ins), c2) \<Rightarrow> (Inr v, c2\<lparr>initRendered := True, jqDom := v\<rparr>)))"

text \<open>
  \<^verbatim>\<open>_renderWithChildren()\<close>: the element and the inserted children, which are
  \<^verbatim>\<open>undefined\<close> (\<open>None\<close>) on the loading branch.
\<close>

definition p_renderWithChildren ::
  "env \<Rightarrow> component \<Rightarrow> (error + jsref \<times> inserted list option) \<times> component" where
  "p_renderWithChildren e c =
     (case initIfNeeded c of
        (Some err, c1) \<Rightarrow> (Inl err, c1)
      | (None, c1) \<Rightarrow>
          if \<not> initialized c1 \<and> pendingInit c1
          then (case loadingView e c1 of (v, c2) \<Rightarrow> (Inr (v, None), c2))
          else (case renderValidated e c1 of
                  (Inl err, c2) \<Rightarrow> (Inl err, c2)
                | (Inr (v, ins), c2) \<Rightarrow> (Inr (v, Some ins), c2)))"

section \<open>Refreshing\<close>

text \<open>The public \<^verbatim>\<open>refresh()\<close>.\<close>

definition refresh :: "component \<times> scheduler \<Rightarrow> component \<times> scheduler" where
  "refresh cq =
     (let c = (fst cq)\<lparr>pendingRefresh := True, refreshList := Full\<rparr>
      in (c, queueRefresh (selfRequest c) (snd cq)))"

text \<open>
  The loop that re-anchors the inserted children evaluates
  \<^verbatim>\<open>this.jqDom[0].contains(insertedChildren[i].elmt[0])\<close> for each of them; it throws when
  the root collection is empty or an inserted element is \<^verbatim>\<open>null\<close> or \<^verbatim>\<open>undefined\<close>. Its
  assignments go to the children.
\<close>

definition reanchorFails :: "dom list \<Rightarrow> inserted list \<Rightarrow> bool" where
  "reanchorFails cur ins =
     (ins \<noteq> [] \<and> (cur = [] \<or> (\<exists>x \<in> set ins. elmt x = JNull \<or> elmt x = JUndefined)))"

text \<open>
  The branch of \<^verbatim>\<open>_refresh\<close> for a non-empty selector array \<open>l\<close>:
  deduplicate, drop the contained selectors, render the new tree, patch, re-anchor, reset.
\<close>

definition partialRefresh :: "env \<Rightarrow> string list \<Rightarrow> component \<Rightarrow> error option \<times> component" where
  "partialRefresh e l c =
     (let l1 = dedupe l;
          pruned = (if length l1 > 1
                    then (case jqDom c of
                            JQ cur \<Rightarrow> pruneSelectors (matches e) (nodes cur) l1
                          | _ \<Rightarrow> (Some TypeError, l1))
                    else (None, l1));
          c1 = c\<lparr>refreshList := Selectors (snd pruned)\<rparr>
      in case fst pruned of
           Some err \<Rightarrow> (Some err, c1)
         | None \<Rightarrow>
             (case p_renderWithChildren e c1 of
                (Inl err, c2) \<Rightarrow> (Some err, c2)
              | (Inr (jqNewComponent, insertedChildren), c2) \<Rightarrow>
                  (case (jqDom c2, jqNewComponent) of
                     (JQ cur, JQ new) \<Rightarrow>
                       (case patchLoop (matches e) (rev (snd pruned)) (nodes cur) (nodes new) [] of
                          (err, cur', new', patched) \<Rightarrow>
                            (let c3 = c2\<lparr>jqDom := JQ (cur\<lparr>nodes := cur'\<rparr>),
                                        trace := trace c2 @ map ElementReplaced patched\<rparr> in
                             case err of
                               Some x \<Rightarrow> (Some x, c3)
                             | None \<Rightarrow>
                                 if reanchorFails cur' (case insertedChildren of None \<Rightarrow> [] | Some ins \<Rightarrow> ins)
                                    \<or> insertedChildren = None
                                 then (Some TypeError, c3)
                                 else (None, c3\<lparr>refreshList := Selectors []\<rparr>)))
                   | _ \<Rightarrow> (Some TypeError, c2))))"

text \<open>The branch of \<^verbatim>\<open>_refresh\<close> for \<^verbatim>\<open>this._refreshList == true\<close>.\<close>

definition fullRefresh :: "env \<Rightarrow> component \<Rightarrow> error option \<times> component" where
  "fullRefresh e c =
     (let jqOldComponent = jqDom c in
      case render e c of
        (Inl err, c1) \<Rightarrow> (Some err, c1)
      | (Inr jqNewComponent, c1) \<Rightarrow>
          (case jqOldComponent of
             JQ old \<Rightarrow>
               (let c2 = (logEffect RootReplaced c1)\<lparr>refreshList := Selectors []\<rparr>
                in (None, if ''_postRefresh'' \<in> set (callables c2) then logEffect PostRefresh c2 else c2))
           | _ \<Rightarrow> (Some TypeError, c1)))"

text \<open>\<^verbatim>\<open>_refresh()\<close>\<close>

definition p_refresh :: "env \<Rightarrow> component \<Rightarrow> error option \<times> component" where
  "p_refresh e c =
     (if initialized c \<and> \<not> delayRefresh c
      then (case jqDom c of
              JNull \<Rightarrow> (case render e c of (Inl err, c1) \<Rightarrow> (Some err, c1) | (Inr v, c1) \<Rightarrow> (None, c1))
            | _ \<Rightarrow>
                (case (case refreshList c of
                         Selectors l \<Rightarrow> if l \<noteq> [] then partialRefresh e l c else (None, c)
                       | Full \<Rightarrow> fullRefresh e c) of
                   (Some err, c1) \<Rightarrow> (Some err, c1)
                 | (None, c1) \<Rightarrow> (None, c1\<lparr>cleanUpChildren := Some (randomToken e)\<rparr>)))
      else (None, c))"

section \<open>The child registry\<close>

text \<open>
  \<^verbatim>\<open>indexOf\<close> on an array of objects compares identities: two components are the same
  object when their instance numbers agree, two arrays when their identities agree.
\<close>

fun sameObject :: "registered \<Rightarrow> registered \<Rightarrow> bool" where
  "sameObject (Component a) (Component b) = (a = b)"
| "sameObject (Repetition i xs) (Repetition j ys) = (i = j)"
| "sameObject x y = False"

fun isRegistered :: "registered list \<Rightarrow> registered \<Rightarrow> bool" where
  "isRegistered [] x = False"
| "isRegistered (y # ys) x = (sameObject y x \<or> isRegistered ys x)"

text \<open>
  The registry is a plain object, so a section name that \<^verbatim>\<open>Object.prototype\<close> defines
  reads as an inherited member, which is not \<^verbatim>\<open>undefined\<close> and has no \<^verbatim>\<open>indexOf\<close>.
\<close>

definition objectPrototypeKeys :: "string list" where
  "objectPrototypeKeys =
     [''constructor'', ''__defineGetter__'', ''__defineSetter__'', ''hasOwnProperty'',
      ''__lookupGetter__'', ''__lookupSetter__'', ''isPrototypeOf'', ''propertyIsEnumerable'',
      ''toString'', ''valueOf'', ''__proto__'', ''toLocaleString'']"

text \<open>The part of \<^verbatim>\<open>registerChild\<close> after the section name is settled.\<close>

definition addChild :: "string \<Rightarrow> registered \<Rightarrow> component \<Rightarrow> error option \<times> component" where
  "addChild sectionName childComponent c =
     (if sectionName \<in> set objectPrototypeKeys then (Some TypeError, c)
      else (let reg = (case map_of (childComponents c) sectionName of
                         None \<Rightarrow> childComponents c @ [(sectionName, [])]
                       | Some xs \<Rightarrow> childComponents c);
                section = (case map_of reg sectionName of None \<Rightarrow> [] | Some xs \<Rightarrow> xs)
            in (None, c\<lparr>childComponents :=
                          (if isRegistered section childComponent then reg
                           else AList.update sectionName (section @ [childComponent]) reg)\<rparr>)))"

text \<open>
  \<^verbatim>\<open>registerChild(childComponent, sectionName)\<close>; \<open>None\<close> is a section name that is
  \<^verbatim>\<open>undefined\<close>.
\<close>

definition registerChild ::
  "registered \<Rightarrow> string option \<Rightarrow> component \<Rightarrow> error option \<times> component" where
  "registerChild childComponent sectionName c =
     (case sectionName of
        None \<Rightarrow> addChild ''default'' childComponent c
      | Some name \<Rightarrow>
          (case childComponent of
             Component n \<Rightarrow> (Some ConfigurationError, c)
           | Repetition i xs \<Rightarrow> addChild name childComponent c))"

text \<open>
  \<^verbatim>\<open>destroy()\<close>. \<^verbatim>\<open>eachChildComponent\<close> visits the sections in order and each section
  from its last entry to its first; in the default section the entry itself is destroyed
  (an array has no \<^verbatim>\<open>destroy\<close>), in any other section the members of the entry.
\<close>

fun destroyEntries :: "bool \<Rightarrow> registered list \<Rightarrow> effect list \<Rightarrow> error option \<times> effect list" where
  "destroyEntries isDefault [] t = (None, t)"
| "destroyEntries isDefault (x # xs) t =
     (case x of
        Component n \<Rightarrow>
          (if isDefault then destroyEntries isDefault xs (t @ [ChildDestroyed (Component n)])
           else destroyEntries isDefault xs t)
      | Repetition i ms \<Rightarrow>
          (if isDefault then (Some TypeError, t)
           else destroyEntries isDefault xs (t @ map (\<lambda>m. ChildDestroyed (Component m)) (rev ms))))"

fun destroySections ::
  "(string \<times> registered list) list \<Rightarrow> effect list \<Rightarrow> error option \<times> effect list" where
  "destroySections [] t = (None, t)"
| "destroySections ((name, xs) # rest) t =
     (case destroyEntries (name = ''default'') (rev xs) t of
        (Some err, t1) \<Rightarrow> (Some err, t1)
      | (None, t1) \<Rightarrow> destroySections rest t1)"

definition destroy :: "component \<Rightarrow> error option \<times> component" where
  "destroy c =
     (case destroySections (childComponents c) (trace c) of
        (Some err, t1) \<Rightarrow> (Some err, c\<lparr>trace := t1\<rparr>)
      | (None, t1) \<Rightarrow>
          (let c1 = c\<lparr>childComponents := [(''default'', [])], observing := False,
                      trace := t1 @ [ObservableRemoved]\<rparr>
           in case jqDom c1 of
                JNull \<Rightarrow> (None, c1)
              | JQ j \<Rightarrow> (None, c1)
              | _ \<Rightarrow> (Some TypeError, c1)))"

section \<open>Construction\<close>

text \<open>
  Data model values. \<open>JInst\<close> is an object that is not a plain object (an instance of a
  class), which \<^verbatim>\<open>$.extend\<close> copies by reference.
\<close>

datatype jsval =
    JUndefinedV
  | JNullV
  | JBool bool
  | JNumber int
  | JString string
  | JArr "jsval list"
  | JObj "(string \<times> jsval) list"
  | JInst nat

type_synonym fields = "(string \<times> jsval) list"

definition lookupField :: "fields \<Rightarrow> string \<Rightarrow> jsval" where
  "lookupField fs k = (case map_of fs k of None \<Rightarrow> JUndefinedV | Some v \<Rightarrow> v)"

definition arrayGet :: "jsval list \<Rightarrow> nat \<Rightarrow> jsval" where
  "arrayGet xs i = (if i < length xs then xs ! i else JUndefinedV)"

text \<open>\<^verbatim>\<open>xs[i] = v\<close>: an index past the end grows the array.\<close>

definition arraySet :: "jsval list \<Rightarrow> nat \<Rightarrow> jsval \<Rightarrow> jsval list" where
  "arraySet xs i v =
     (if i < length xs then xs[i := v] else xs @ replicate (i - length xs) JUndefinedV @ [v])"

text \<open>
  The deep \<^verbatim>\<open>$.extend(true, target, source)\<close> of jQuery, an external library, on one source
  object (\<open>extendFields\<close>) or array (\<open>extendItems\<close>, from index \<open>i\<close> on): a plain object or
  an array of the source is merged into the target's member of the same kind, or into a
  new one; any other value but \<^verbatim>\<open>undefined\<close> is assigned; \<^verbatim>\<open>undefined\<close> is skipped.
\<close>

fun extendFields :: "fields \<Rightarrow> fields \<Rightarrow> fields"
and extendItems :: "jsval list \<Rightarrow> nat \<Rightarrow> jsval list \<Rightarrow> jsval list" where
  "extendFields target [] = target"
| "extendFields target ((name, copy) # rest) =
     extendFields
       (case copy of
          JObj cf \<Rightarrow> AList.update name
            (JObj (extendFields (case lookupField target name of JObj sf \<Rightarrow> sf | _ \<Rightarrow> []) cf)) target
        | JArr cs \<Rightarrow> AList.update name
            (JArr (extendItems (case lookupField target name of JArr ss \<Rightarrow> ss | _ \<Rightarrow> []) 0 cs)) target
        | JUndefinedV \<Rightarrow> target
        | _ \<Rightarrow> AList.update name copy target)
       rest"
| "extendItems target i [] = target"
| "extendItems target i (copy # rest) =
     extendItems
       (case copy of
          JObj cf \<Rightarrow> arraySet target i
            (JObj (extendFields (case arrayGet target i of JObj sf \<Rightarrow> sf | _ \<Rightarrow> []) cf))
        | JArr cs \<Rightarrow> arraySet target i
            (JArr (extendItems (case arrayGet target i of JArr ss \<Rightarrow> ss | _ \<Rightarrow> []) 0 cs))
        | JUndefinedV \<Rightarrow> target
        | _ \<Rightarrow> arraySet target i copy)
       (Suc i) rest"

text \<open>
  The heap of data objects (an object is its fields, in insertion order), and the
  \<^verbatim>\<open>data\<close> argument of the constructor: a reference to an object, \<^verbatim>\<open>null\<close>, or a value
  whose \<^verbatim>\<open>typeof\<close> is not \<^verbatim>\<open>"object"\<close>.
\<close>

type_synonym store = "nat \<Rightarrow> fields option"

datatype dataArg = DataObject nat | DataNull | DataPrimitive

text \<open>
  \<^verbatim>\<open>var dataSuperSet = {}; $.extend(true, dataSuperSet, defaults.data, data);\<close>
  \<^verbatim>\<open>$.extend(true, data, dataSuperSet);\<close>
  A source that is \<^verbatim>\<open>null\<close> or \<^verbatim>\<open>undefined\<close> is skipped, and a target that is not an
  object is replaced by a new object that nobody else holds.
\<close>

definition mergeData :: "fields option \<Rightarrow> dataArg \<Rightarrow> store \<Rightarrow> store" where
  "mergeData defaultsData data st =
     (case data of
        DataObject r \<Rightarrow>
          (case st r of
             None \<Rightarrow> st
           | Some old \<Rightarrow>
               (let dataSuperSet =
                      extendFields
                        (extendFields [] (case defaultsData of None \<Rightarrow> [] | Some d \<Rightarrow> d)) old
                in st(r \<mapsto> extendFields old dataSuperSet)))
      | _ \<Rightarrow> st)"

text \<open>
  \<open>cfg\<close> stands for \<^verbatim>\<open>this.options\<close> (the defaults with the caller's options merged over
  them) together with \<^verbatim>\<open>defaults.data\<close> and what the component class defines.
\<close>

datatype templatesOption = TemplateIds "string list" | TemplateHash "(string \<times> string) list"

record config =
  cfgTemplates :: templatesOption
  cfgLoadingTemplate :: "string option"
  cfgInitList :: "initEntry list"
  cfgUiBindings :: "(string \<times> uiBinding) list"
  cfgDataBindings :: "(string \<times> dataBinding) list"
  cfgDelayInit :: bool
  defaultsData :: "fields option"
  classCallables :: "string list"
  classOverridesRender :: bool

text \<open>
  The templates: element identifiers are looked up in the document (\<open>doc\<close> gives the
  trimmed content of the element with an identifier), a hash is taken as it is.
\<close>

definition resolveTemplates ::
  "(string \<Rightarrow> string option) \<Rightarrow> templatesOption \<Rightarrow> error + (string \<times> string) list" where
  "resolveTemplates doc t =
     (case t of
        TemplateHash h \<Rightarrow> Inr h
      | TemplateIds ids \<Rightarrow>
          if ids = [] then Inl ConfigurationError
          else if \<exists>i \<in> set ids. doc i = None then Inl ConfigurationError
          else Inr (foldl (\<lambda>acc i. AList.update i (case doc i of None \<Rightarrow> [] | Some s \<Rightarrow> s) acc) [] ids))"

definition newComponent ::
  "(string \<Rightarrow> string option) \<Rightarrow> string \<Rightarrow> config \<Rightarrow> nat \<Rightarrow> nat \<Rightarrow> (string \<times> string) list \<Rightarrow> component" where
  "newComponent doc name cfg n r tpls =
     \<lparr>className = name, baseClassInstance = n, jqDom = JNull, initialized = False,
      initList = cfgInitList cfg, pendingInit = False, pendingFetchCount = 0,
      initRendered = False, delayRefresh = False, cleanUpChildren = None,
      childComponents = [(''default'', [])], refreshList = Selectors [],
      pendingRefresh = False, templates = tpls,
      loadingTemplate = (case cfgLoadingTemplate cfg of
                           None \<Rightarrow> ''<div></div>''
                         | Some s \<Rightarrow> (case doc s of None \<Rightarrow> s | Some content \<Rightarrow> content)),
      uiBindings = cfgUiBindings cfg, dataBindings = cfgDataBindings cfg, dataRef = r,
      callables = classCallables cfg, overridesRender = classOverridesRender cfg,
      groups = [], observing = True, nextRef = 0, trace = []\<rparr>"

text \<open>
  The constructor, called with the class name, the configuration, the \<^verbatim>\<open>data\<close> argument
  and the current value \<open>n\<close> of the instance counter. A \<^verbatim>\<open>null\<close> \<^verbatim>\<open>data\<close> passes the
  \<^verbatim>\<open>typeof\<close> test and fails in \<^verbatim>\<open>ObservableSlim.create\<close>, which needs an object to wrap.
\<close>

definition constructor ::
  "(string \<Rightarrow> string option) \<Rightarrow> string \<Rightarrow> config \<Rightarrow> dataArg \<Rightarrow> nat \<Rightarrow> store
     \<Rightarrow> (error + component) \<times> store" where
  "constructor doc name cfg data n st =
     (let st1 = mergeData (defaultsData cfg) data st in
      case resolveTemplates doc (cfgTemplates cfg) of
        Inl err \<Rightarrow> (Inl err, st1)
      | Inr tpls \<Rightarrow>
          (case data of
             DataPrimitive \<Rightarrow> (Inl ConfigurationError, st1)
           | DataNull \<Rightarrow> (Inl TypeError, st1)
           | DataObject r \<Rightarrow>
               (let c = newComponent doc name cfg n r tpls in
                if cfgDelayInit cfg then (Inr c, st1)
                else (case init c of
                        (Some err, c1) \<Rightarrow> (Inl err, st1)
                      | (None, c1) \<Rightarrow> (Inr c1, st1)))))"


section \<open>The life of an instance\<close>

text \<open>
  An instance together with the process-wide scheduler, and what can happen to them: a
  batch of writes through \<^verbatim>\<open>this.data\<close>, the settling of the \<open>i\<close>-th outstanding promise
  group (\<open>True\<close>: all of its promises resolved), the oldest scheduler timer firing, calls
  of the public methods, and a refresh request of another instance. A call that throws
  leaves the state it had reached. Left out are \<^verbatim>\<open>isReady\<close> and \<^verbatim>\<open>observe\<close>, which assign
  no field of the instance, and the deferred orphan sweep of \<^verbatim>\<open>_refresh\<close>, which only
  removes entries of the child registry.
\<close>

record system =
  inst :: component
  sched :: scheduler

datatype event =
    Mutation "change list"
  | Settled nat bool
  | TimerFired env
  | RenderCalled env
  | RefreshCalled
  | InitCalled
  | ChildRegistered registered "string option"
  | DestroyCalled
  | ForeignRequest nat

text \<open>A queued value called by the flush: a closure of this instance runs its \<^verbatim>\<open>_refresh\<close>.\<close>

definition callClosure :: "env \<Rightarrow> jsitem \<Rightarrow> component \<Rightarrow> error option \<times> component" where
  "callClosure e f c =
     (case f of
        Num n \<Rightarrow> (Some TypeError, c)
      | Fn (RefreshOf n) \<Rightarrow> if n = baseClassInstance c then p_refresh e c else (None, c))"

definition step :: "regexp \<Rightarrow> event \<Rightarrow> system \<Rightarrow> system" where
  "step rx ev s =
     (case ev of
        Mutation changes \<Rightarrow>
          (if observing (inst s)
           then (case onChange rx changes (inst s, sched s) of (c, q) \<Rightarrow> \<lparr>inst = c, sched = q\<rparr>)
           else s)
      | Settled i ok \<Rightarrow>
          (if i < length (groups (inst s))
           then (case settleGroup (groups (inst s) ! i) ok
                        ((inst s)\<lparr>groups := spliceOne i (groups (inst s))\<rparr>, sched s) of
                   (c, q) \<Rightarrow> \<lparr>inst = c, sched = q\<rparr>)
           else s)
      | TimerFired e \<Rightarrow>
          (case timerFires (callClosure e) (sched s) (inst s) of
             (err, q, c) \<Rightarrow> \<lparr>inst = c, sched = q\<rparr>)
      | RenderCalled e \<Rightarrow> s\<lparr>inst := snd (render e (inst s))\<rparr>
      | RefreshCalled \<Rightarrow> (case refresh (inst s, sched s) of (c, q) \<Rightarrow> \<lparr>inst = c, sched = q\<rparr>)
      | InitCalled \<Rightarrow> s\<lparr>inst := snd (init (inst s))\<rparr>
      | ChildRegistered child sectionName \<Rightarrow>
          s\<lparr>inst := snd (registerChild child sectionName (inst s))\<rparr>
      | DestroyCalled \<Rightarrow> s\<lparr>inst := snd (destroy (inst s))\<rparr>
      | ForeignRequest n \<Rightarrow>
          s\<lparr>sched := queueRefresh \<lparr>instanceId = n, refreshFn = RefreshOf n\<rparr> (sched s)\<rparr>)"

definition run :: "regexp \<Rightarrow> event list \<Rightarrow> system \<Rightarrow> system" where
  "run rx evs s = foldl (\<lambda>s ev. step rx ev s) s evs"

section \<open>Invariants and sample instances\<close>

text \<open>
  The count of pending fetches is at least the number of promise groups whose continuation
  has not run; two states agree on both.
\<close>

definition countCoversGroups :: "component \<Rightarrow> bool" where
  "countCoversGroups c = (int (length (groups c)) \<le> pendingFetchCount c)"

definition sameFetchState :: "component \<Rightarrow> component \<Rightarrow> bool" where
  "sameFetchState c c' = (groups c' = groups c \<and> pendingFetchCount c' = pendingFetchCount c)"

text \<open>The refresh state is \<^verbatim>\<open>true\<close> or the empty array.\<close>

definition fullOrEmpty :: "component \<Rightarrow> bool" where
  "fullOrEmpty c = (refreshList c = Full \<or> refreshList c = Selectors [])"

text \<open>
  A component class in the manner of the source's header comment: one init method that
  must return before the first render, a selector binding and a full-refresh binding, and
  a data binding that delays the refresh.
\<close>

definition sampleConfig :: config where
  "sampleConfig =
     \<lparr>cfgTemplates = TemplateHash [(''main'', ''<div class=root></div>'')],
      cfgLoadingTemplate = None,
      cfgInitList = [\<lparr>methodName = ''_fetchTeamCoverage'', preventRender = True, condition = None\<rparr>],
      cfgUiBindings = [(''participant_list'', RefreshSelectors [''.a'', ''.b'']),
                       (''person_id'', RefreshAll)],
      cfgDataBindings = [(''person_id'', \<lparr>methods = [''_fetchPersonList''], bindDelayRefresh = True\<rparr>)],
      cfgDelayInit = False,
      defaultsData = Some [(''person_id'', JNullV), (''full_name'', JNullV),
                           (''teams'', JObj [(''selected'', JBool False)])],
      classCallables = [''_fetchTeamCoverage'', ''_fetchPersonList''],
      classOverridesRender = False\<rparr>"

definition sampleStore :: store where
  "sampleStore = Map.empty(0 \<mapsto> [(''person_id'', JNumber 7)])"

definition noDocument :: "string \<Rightarrow> string option" where
  "noDocument i = None"

definition noRegExp :: regexp where
  "noRegExp pattern path = False"

text \<open>The sample instance before \<open>init\<close>, while its init group is pending, and once ready.\<close>

definition sampleNew :: component where
  "sampleNew = newComponent noDocument ''CMAddTask'' sampleConfig 0 0
                 [(''main'', ''<div class=root></div>'')]"

definition samplePending :: component where
  "samplePending = snd (init sampleNew)"

definition sampleReady :: component where
  "sampleReady = fst (settleGroup InitActive True (samplePending\<lparr>groups := []\<rparr>, emptyScheduler))"

text \<open>
  Collaborators for the samples: every template renders to a root with an element of
  class \<open>a\<close> that holds an element of class \<open>b\<close>, and no children are registered.
\<close>

definition sampleTree :: "nat \<Rightarrow> dom list" where
  "sampleTree k =
     [Element k ''div'' [''root'']
        [Element (k + 1) ''div'' [''a''] [Element (k + 2) ''p'' [''b''] []],
         Element (k + 3) ''span'' [''c''] []]]"

definition sampleEnv :: "nat \<Rightarrow> env" where
  "sampleEnv k =
     \<lparr>renderLoadingResult = JUndefined, renderResult = JUndefined,
      templateEngine = (\<lambda>t. sampleTree k),
      insertChildren = (\<lambda>j. Inr (nodes j, [])),
      matches = classOrTag, randomToken = 42\<rparr>"

text \<open>
  The sample class with an empty init list (initialized inside \<open>init\<close>), that instance
  after its first \<open>render\<close>, a \<^verbatim>\<open>_render\<close> result with two root elements, and a loading
  view that a custom \<^verbatim>\<open>_renderLoading\<close> keeps and returns on every call.
\<close>

definition sampleSimple :: component where
  "sampleSimple = snd (init (sampleNew\<lparr>initList := []\<rparr>))"

definition sampleRendered :: component where
  "sampleRendered = snd (render (sampleEnv 10) sampleSimple)"

definition twoRoots :: jsref where
  "twoRoots = JQ \<lparr>ref = 5, nodes = [Element 1 ''div'' [] [], Element 2 ''div'' [] []]\<rparr>"

definition cachedLoading :: jsref where
  "cachedLoading = JQ \<lparr>ref = 7, nodes = [Element 1 ''div'' [''spinner''] []]\<rparr>"





text \<open>
  For the selectors of a partial refresh, in the current tree \<open>cur\<close>: \<open>covers m cur t s\<close>
  says that the element \<open>t\<close> matches first exists and contains (or is) the element \<open>s\<close>
  matches first, which is the test \<^verbatim>\<open>domCheck.contains(domCurr)\<close> of the source;
  \<open>properlyInside m cur s t\<close> says that the element of \<open>s\<close> is a descendant of the element
  of \<open>t\<close> and not that element itself.
\<close>

definition covers :: "matcher \<Rightarrow> dom list \<Rightarrow> string \<Rightarrow> string \<Rightarrow> bool" where
  "covers m cur t s =
     (case firstMatch m cur t of None \<Rightarrow> False | Some y \<Rightarrow> domContains y (firstMatch m cur s))"

definition properlyInside :: "matcher \<Rightarrow> dom list \<Rightarrow> string \<Rightarrow> string \<Rightarrow> bool" where
  "properlyInside m cur s t = (covers m cur t s \<and> firstMatch m cur s \<noteq> firstMatch m cur t)"

text \<open>
  Invariants of the pruning loop: from index \<open>a\<close> on, no selector of the list is covered by
  another one of the list; every selector of the original list is in the list or covered
  by one that is.
\<close>

definition settled :: "matcher \<Rightarrow> dom list \<Rightarrow> string list \<Rightarrow> nat \<Rightarrow> bool" where
  "settled m cur l a =
     (\<forall>i j. a \<le> i \<and> i < length l \<and> j < length l \<and> i \<noteq> j \<longrightarrow> \<not> covers m cur (l ! j) (l ! i))"

definition represented :: "matcher \<Rightarrow> dom list \<Rightarrow> string list \<Rightarrow> string list \<Rightarrow> bool" where
  "represented m cur l0 l = (\<forall>s \<in> set l0. \<exists>t \<in> set l. t = s \<or> covers m cur t s)"

text \<open>
  The calls recorded after the state \<open>c\<close>, and a later state that has recorded no
  \<^verbatim>\<open>replaceWith\<close> since \<open>c\<close>.
\<close>

definition callsSince :: "component \<Rightarrow> component \<Rightarrow> effect list" where
  "callsSince c c' = drop (length (trace c)) (trace c')"

definition noPatchSince :: "component \<Rightarrow> component \<Rightarrow> bool" where
  "noPatchSince c c' = (\<exists>xs. trace c' = trace c @ xs \<and> (\<forall>s. ElementReplaced s \<notin> set xs))"

text \<open>
  The rendered sample instance after a change of \<open>participant_list\<close>, whose binding names
  the selectors \<open>.a\<close> and \<open>.b\<close>.
\<close>

definition samplePartial :: component where
  "samplePartial = fst (onChange noRegExp [\<lparr>currentPath = ''participant_list''\<rparr>]
                          (sampleRendered, emptyScheduler))"

section \<open>Auxiliary lemmas: what each operation leaves alone\<close>

text \<open>
  Frame properties, one operation at a time: the refresh state once it is \<^verbatim>\<open>true\<close>, and
  the count of pending fetches against the outstanding groups, up to a step and a run of
  the instance.
\<close>

lemma uiStep_Full: "foldl (uiStep rx p) Full bs = Full"
  by (induction bs) (auto)

lemma changeStep_Full: "fst acc = Full \<Longrightarrow> fst (changeStep rx c acc ch) = Full"
  by (simp add: changeStep_def uiStep_Full)

lemma foldl_changeStep_Full:
  "fst acc = Full \<Longrightarrow> fst (foldl (changeStep rx c) acc chs) = Full"
  by (induction chs arbitrary: acc) (simp_all add: changeStep_Full)

lemma p_fetch_refreshList: "refreshList (p_fetch d fl c) = refreshList c"
  by (simp add: p_fetch_def Let_def logEffect_def)

lemma onChange_Full:
  "refreshList c = Full \<Longrightarrow> refreshList (fst (onChange rx changes (c, q))) = Full"
  by (simp add: onChange_def Let_def p_fetch_refreshList foldl_changeStep_Full)

lemma init_refreshList: "refreshList (snd (init c)) = refreshList c"
  by (simp add: init_def Let_def logEffect_def)

lemma initIfNeeded_refreshList: "refreshList (snd (initIfNeeded c)) = refreshList c"
  by (simp add: initIfNeeded_def init_refreshList)

lemma jqueryOf_refreshList: "refreshList (snd (jqueryOf e t c)) = refreshList c"
  by (simp add: jqueryOf_def)

lemma loadingView_refreshList: "refreshList (snd (loadingView e c)) = refreshList c"
  by (simp add: loadingView_def jqueryOf_refreshList)

lemma p_render_refreshList: "refreshList (snd (p_render e c)) = refreshList c"
  by (simp add: p_render_def jqueryOf_def case_prod_unfold split: list.splits)

lemma renderValidated_refreshList: "refreshList (snd (renderValidated e c)) = refreshList c"
  using p_render_refreshList[of e c]
  by (auto simp add: renderValidated_def case_prod_unfold split: sum.splits option.splits jsref.splits)

lemma render_refreshList: "refreshList (snd (render e c)) = refreshList c"
  using initIfNeeded_refreshList[of c] loadingView_refreshList[of e "snd (initIfNeeded c)"]
    renderValidated_refreshList[of e "snd (initIfNeeded c)"]
  by (auto simp add: render_def case_prod_unfold split: sum.splits option.splits)

lemma sameFetchState_inv: "sameFetchState c c' \<Longrightarrow> countCoversGroups c \<Longrightarrow> countCoversGroups c'"
  by (simp add: sameFetchState_def countCoversGroups_def)

lemma init_inv: "countCoversGroups c \<Longrightarrow> countCoversGroups (snd (init c))"
  by (simp add: init_def Let_def logEffect_def countCoversGroups_def)

lemma initIfNeeded_inv: "countCoversGroups c \<Longrightarrow> countCoversGroups (snd (initIfNeeded c))"
  by (simp add: initIfNeeded_def init_inv)

lemma jqueryOf_same: "sameFetchState c (snd (jqueryOf e t c))"
  by (simp add: jqueryOf_def sameFetchState_def)

lemma loadingView_same: "sameFetchState c (snd (loadingView e c))"
  by (simp add: loadingView_def jqueryOf_def sameFetchState_def)

lemma p_render_same: "sameFetchState c (snd (p_render e c))"
  by (simp add: p_render_def jqueryOf_def sameFetchState_def case_prod_unfold split: list.splits)

lemma renderValidated_same: "sameFetchState c (snd (renderValidated e c))"
  using p_render_same[of c e]
  by (auto simp add: renderValidated_def case_prod_unfold split: sum.splits option.splits jsref.splits)

lemma render_inv: "countCoversGroups c \<Longrightarrow> countCoversGroups (snd (render e c))"
  using initIfNeeded_inv[of c] loadingView_same[of "snd (initIfNeeded c)" e]
    renderValidated_same[of "snd (initIfNeeded c)" e]
  by (auto simp add: render_def sameFetchState_def countCoversGroups_def
      case_prod_unfold split: sum.splits option.splits)

lemma p_renderWithChildren_inv:
  "countCoversGroups c \<Longrightarrow> countCoversGroups (snd (p_renderWithChildren e c))"
  using initIfNeeded_inv[of c] loadingView_same[of "snd (initIfNeeded c)" e]
    renderValidated_same[of "snd (initIfNeeded c)" e]
  by (auto simp add: p_renderWithChildren_def sameFetchState_def countCoversGroups_def
      case_prod_unfold split: sum.splits option.splits)

lemma p_renderWithChildren_refreshList:
  "refreshList (snd (p_renderWithChildren e c)) = refreshList c"
  using initIfNeeded_refreshList[of c] loadingView_refreshList[of e "snd (initIfNeeded c)"]
    renderValidated_refreshList[of e "snd (initIfNeeded c)"]
  by (auto simp add: p_renderWithChildren_def case_prod_unfold split: sum.splits option.splits)

lemma partialRefresh_inv:
  "countCoversGroups c \<Longrightarrow> countCoversGroups (snd (partialRefresh e l c))"
proof -
  assume a: "countCoversGroups c"
  define c1 where "c1 = c\<lparr>refreshList := Selectors (snd (if length (dedupe l) > 1
                    then (case jqDom c of
                            JQ cur \<Rightarrow> pruneSelectors (matches e) (nodes cur) (dedupe l)
                          | _ \<Rightarrow> (Some TypeError, dedupe l))
                    else (None, dedupe l)))\<rparr>"
  have "countCoversGroups c1" using a by (simp add: c1_def countCoversGroups_def)
  then have "countCoversGroups (snd (p_renderWithChildren e c1))"
    by (rule p_renderWithChildren_inv)
  then show ?thesis
    using \<open>countCoversGroups c1\<close>
    unfolding partialRefresh_def Let_def c1_def[symmetric]
    by (auto simp add: countCoversGroups_def case_prod_unfold split: sum.splits option.splits jsref.splits)
qed

lemma fullRefresh_inv: "countCoversGroups c \<Longrightarrow> countCoversGroups (snd (fullRefresh e c))"
  using render_inv[of c e]
  by (auto simp add: fullRefresh_def Let_def logEffect_def countCoversGroups_def
      case_prod_unfold split: sum.splits jsref.splits)

lemma p_refresh_inv: "countCoversGroups c \<Longrightarrow> countCoversGroups (snd (p_refresh e c))"
  using render_inv[of c e] fullRefresh_inv[of c e] partialRefresh_inv[of c e]
  by (auto simp add: p_refresh_def countCoversGroups_def case_prod_unfold
      split: sum.splits jsref.splits option.splits refreshState.splits)

lemma p_fetch_inv: "countCoversGroups c \<Longrightarrow> countCoversGroups (p_fetch d fl c)"
  by (simp add: p_fetch_def Let_def logEffect_def countCoversGroups_def)

lemma onChange_inv: "countCoversGroups c \<Longrightarrow> countCoversGroups (fst (onChange rx chs (c, q)))"
  using p_fetch_inv[of "c\<lparr>refreshList := fst (foldl (changeStep rx c) (refreshList c, False, []) (rev chs))\<rparr>"]
  by (simp add: onChange_def Let_def countCoversGroups_def)

lemma settleGroup_inv:
  "int (length (groups c)) + 1 \<le> pendingFetchCount c \<Longrightarrow>
   countCoversGroups (fst (settleGroup g ok (c, q)))"
  by (cases g) (simp_all add: settleGroup_def Let_def logEffect_def countCoversGroups_def)

lemma registerChild_same: "sameFetchState c (snd (registerChild ch sn c))"
  by (simp add: registerChild_def addChild_def Let_def sameFetchState_def
      split: option.splits registered.splits)

lemma destroy_same: "sameFetchState c (snd (destroy c))"
  by (simp add: destroy_def Let_def sameFetchState_def case_prod_unfold
      split: option.splits jsref.splits)

lemma callClosure_inv: "countCoversGroups c \<Longrightarrow> countCoversGroups (snd (callClosure e f c))"
  by (cases f) (auto simp add: callClosure_def p_refresh_inv split: closure.splits)

lemma flushLoop_preserves:
  assumes "\<And>f w. P w \<Longrightarrow> P (snd (call f w))"
  shows "P w \<Longrightarrow> P (snd (snd (flushLoop call i rq w)))"
proof (induction i arbitrary: rq w)
  case 0
  then show ?case by simp
next
  case (Suc i)
  have "P (snd (call (last rq) w))" using Suc.prems assms by blast
  then show ?case using Suc.IH[of "snd (call (last rq) w)" "butlast rq"] Suc.prems
    by (auto simp add: case_prod_unfold split: option.splits)
qed

lemma timerFires_preserves:
  assumes "\<And>f w. P w \<Longrightarrow> P (snd (call f w))"
  shows "P w \<Longrightarrow> P (snd (snd (timerFires call q w)))"
  using flushLoop_preserves[of P call w "length (refreshQueue q)" "refreshQueue q", OF assms]
  by (auto simp add: timerFires_def Let_def case_prod_unfold split: list.splits option.splits)

lemma spliceOne_length: "i < length xs \<Longrightarrow> length (spliceOne i xs) + 1 = length xs"
  by (simp add: spliceOne_def) 

lemma step_inv:
  assumes a: "countCoversGroups (inst s)"
  shows "countCoversGroups (inst (step rx ev s))"
proof (cases ev)
  case (Mutation chs)
  then show ?thesis using a onChange_inv[of "inst s" rx chs "sched s"]
    by (auto simp add: step_def case_prod_unfold)
next
  case (Settled i ok)
  show ?thesis
  proof (cases "i < length (groups (inst s))")
    case True
    have "int (length (groups ((inst s)\<lparr>groups := spliceOne i (groups (inst s))\<rparr>))) + 1
          \<le> pendingFetchCount ((inst s)\<lparr>groups := spliceOne i (groups (inst s))\<rparr>)"
      using a True spliceOne_length[of i "groups (inst s)"] by (simp add: countCoversGroups_def)
    then show ?thesis using True Settled
      by (simp add: step_def case_prod_unfold settleGroup_inv)
  next
    case False
    then show ?thesis using a Settled by (simp add: step_def)
  qed
next
  case (TimerFired e)
  show ?thesis
    using a timerFires_preserves[of countCoversGroups "callClosure e" "inst s" "sched s"] TimerFired
    by (simp add: step_def case_prod_unfold callClosure_inv)
next
  case (RenderCalled e)
  then show ?thesis using a by (simp add: step_def render_inv)
next
  case RefreshCalled
  then show ?thesis using a
    by (simp add: step_def refresh_def Let_def countCoversGroups_def)
next
  case InitCalled
  then show ?thesis using a by (simp add: step_def init_inv)
next
  case (ChildRegistered ch sn)
  then show ?thesis
    using a registerChild_same[of "inst s" ch sn] by (simp add: step_def sameFetchState_inv)
next
  case DestroyCalled
  then show ?thesis
    using a destroy_same[of "inst s"] by (simp add: step_def sameFetchState_inv)
next
  case (ForeignRequest n)
  then show ?thesis using a by (simp add: step_def)
qed

lemma run_inv: "countCoversGroups (inst s) \<Longrightarrow> countCoversGroups (inst (run rx evs s))"
  unfolding run_def
  by (induction evs arbitrary: s) (simp_all add: step_inv)

lemma newComponent_inv: "countCoversGroups (newComponent doc name cfg n r tpls)"
  by (simp add: newComponent_def countCoversGroups_def)

lemma constructor_inv:
  "constructor doc name cfg data n st = (Inr c, st') \<Longrightarrow> countCoversGroups c"
  using init_inv[OF newComponent_inv]
  by (auto simp add: constructor_def Let_def case_prod_unfold newComponent_inv
      split: sum.splits dataArg.splits if_splits option.splits)

lemma fullRefresh_rl:
  "refreshList (snd (fullRefresh e c)) = refreshList c \<or> refreshList (snd (fullRefresh e c)) = Selectors []"
  using render_refreshList[of e c]
  by (auto simp add: fullRefresh_def Let_def logEffect_def case_prod_unfold
      split: sum.splits jsref.splits)

lemma p_refresh_emptied:
  assumes "refreshList c = Full \<or> refreshList c = Selectors []"
  shows "refreshList (snd (p_refresh e c)) = Full \<or> refreshList (snd (p_refresh e c)) = Selectors []"
  using assms render_refreshList[of e c] fullRefresh_rl[of e c]
  by (auto simp add: p_refresh_def case_prod_unfold
      split: sum.splits jsref.splits option.splits refreshState.splits)

lemma callClosure_emptied: "fullOrEmpty c \<Longrightarrow> fullOrEmpty (snd (callClosure e f c))"
  using p_refresh_emptied[of c e]
  by (cases f) (auto simp add: callClosure_def fullOrEmpty_def split: closure.splits)

lemma settleGroup_Full:
  "refreshList c = Full \<Longrightarrow> refreshList (fst (settleGroup g ok (c, q))) = Full"
  by (cases g) (simp_all add: settleGroup_def Let_def logEffect_def)

lemma registerChild_refreshList: "refreshList (snd (registerChild ch sn c)) = refreshList c"
  by (simp add: registerChild_def addChild_def Let_def split: option.splits registered.splits)

lemma destroy_refreshList: "refreshList (snd (destroy c)) = refreshList c"
  by (simp add: destroy_def Let_def case_prod_unfold split: option.splits jsref.splits)

lemma step_Full:
  assumes a: "refreshList (inst s) = Full"
  shows "refreshList (inst (step rx ev s)) = Full
         \<or> ((\<exists>e. ev = TimerFired e) \<and> refreshList (inst (step rx ev s)) = Selectors [])"
proof (cases ev)
  case (Mutation chs)
  then show ?thesis using a onChange_Full[of "inst s" rx chs "sched s"]
    by (auto simp add: step_def case_prod_unfold)
next
  case (Settled i ok)
  then show ?thesis using a
    by (simp add: step_def case_prod_unfold settleGroup_Full)
next
  case (TimerFired e)
  have "fullOrEmpty (inst s)" using a by (simp add: fullOrEmpty_def)
  then have "fullOrEmpty (snd (snd (timerFires (callClosure e) (sched s) (inst s))))"
    using timerFires_preserves[of fullOrEmpty "callClosure e" "inst s" "sched s"]
    by (simp add: callClosure_emptied)
  then show ?thesis using TimerFired
    by (auto simp add: step_def case_prod_unfold fullOrEmpty_def)
next
  case (RenderCalled e)
  then show ?thesis using a by (simp add: step_def render_refreshList)
next
  case RefreshCalled
  then show ?thesis by (simp add: step_def refresh_def Let_def)
next
  case InitCalled
  then show ?thesis using a by (simp add: step_def init_refreshList)
next
  case (ChildRegistered ch sn)
  then show ?thesis using a by (simp add: step_def registerChild_refreshList)
next
  case DestroyCalled
  then show ?thesis using a by (simp add: step_def destroy_refreshList)
next
  case (ForeignRequest n)
  then show ?thesis using a by (simp add: step_def)
qed


section \<open>Auxiliary lemmas: counting, rendering and the samples\<close>

text \<open>
  What \<^verbatim>\<open>_fetch\<close>, \<open>init\<close> and a settling group do to the count, the branches of
  \<open>render\<close>, and the sample instances evaluated.
\<close>

lemmas sample_defs = sampleReady_def samplePending_def sampleNew_def sampleConfig_def settleGroup_def
      init_def newComponent_def Let_def missingBindingMethod_def logEffect_def

lemma p_fetch_count:
  "fetchList \<noteq> [] \<Longrightarrow>
     pendingFetchCount (p_fetch d fetchList c) = pendingFetchCount c + 1
     \<and> groups (p_fetch d fetchList c) = groups c @ [FetchGroup d]"
  by (simp add: p_fetch_def Let_def logEffect_def)

lemma p_fetch_empty: "p_fetch d [] c = c"
  by (simp add: p_fetch_def Let_def)

lemma init_count:
  "fst (init c) = None \<Longrightarrow>
     groups (snd (init c)) = groups c
        @ (if filter preventRender (filter (\<lambda>e. condition e \<noteq> Some False) (initList c)) \<noteq> []
           then [InitActive] else [])
        @ (if filter (\<lambda>e. \<not> preventRender e) (filter (\<lambda>e. condition e \<noteq> Some False) (initList c)) \<noteq> []
           then [InitPassive] else [])
     \<and> pendingFetchCount (snd (init c))
         = pendingFetchCount c + int (length (groups (snd (init c)))) - int (length (groups c))"
  by (simp add: init_def Let_def logEffect_def split: if_splits)

lemma settle_ok_count:
  "pendingFetchCount (fst (settleGroup g True (c, q))) = pendingFetchCount c - 1"
  by (cases g) (simp_all add: settleGroup_def Let_def logEffect_def)

lemma settle_failed: "settleGroup g False cq = cq"
  by (simp add: settleGroup_def Let_def)

lemma sample_constructed:
  "constructor noDocument ''CMAddTask'' sampleConfig (DataObject 0) 0 sampleStore
     = (Inr samplePending, mergeData (defaultsData sampleConfig) (DataObject 0) sampleStore)"
  by (simp add: constructor_def resolveTemplates_def Let_def samplePending_def sampleNew_def
      sampleConfig_def init_def missingBindingMethod_def newComponent_def)

lemma samplePending_eval:
  "pendingFetchCount samplePending = 1 \<and> groups samplePending = [InitActive]
   \<and> \<not> initialized samplePending \<and> pendingInit samplePending"
  by (simp add: sample_defs)


lemma sampleSimple_eval:
  "sampleSimple = sampleNew\<lparr>initList := [], initialized := True\<rparr>"
  by (simp add: sampleSimple_def sample_defs)

lemma sampleRendered_eval:
  "render (sampleEnv 10) sampleSimple
     = (Inr (JQ \<lparr>ref = 0, nodes = sampleTree 10\<rparr>),
        sampleSimple\<lparr>jqDom := JQ \<lparr>ref = 0, nodes = sampleTree 10\<rparr>, initRendered := True,
                      nextRef := 1, trace := [TemplateEvaluated ''<div class=root></div>'']\<rparr>)"
  by (simp add: sampleSimple_eval render_def initIfNeeded_def renderValidated_def p_render_def
      jqueryOf_def validateRender_def sampleEnv_def sampleTree_def sampleNew_def newComponent_def
      sampleConfig_def)

lemma render_loading:
  assumes "\<not> initialized c" "pendingInit c"
  shows "render e c = (case loadingView e c of (v, c2) \<Rightarrow> (Inr v, c2\<lparr>jqDom := v\<rparr>))"
  using assms by (simp add: render_def initIfNeeded_def)

lemma render_full:
  assumes "initialized c" "\<not> (refreshList c = Selectors [] \<and> initRendered c)"
  shows "render e c = (case renderValidated e c of
                  (Inl err, c2) \<Rightarrow> (Inl err, c2)
                | (Inr (v, ins), c2) \<Rightarrow> (Inr v, c2\<lparr>initRendered := True, jqDom := v\<rparr>))"
  using assms by (auto simp add: render_def initIfNeeded_def)

lemma sampleSimple_fields:
  "initialized sampleSimple \<and> refreshList sampleSimple = Selectors [] \<and> \<not> initRendered sampleSimple
   \<and> \<not> pendingInit sampleSimple"
  by (simp add: sampleSimple_eval sampleNew_def newComponent_def)


section \<open>Auxiliary lemmas: the merge of the data\<close>











section \<open>Auxiliary lemmas: the selectors of a partial refresh\<close>

text \<open>
  Containment of subtrees is transitive and antisymmetric. The containment loops keep
  their two invariants, so the selectors that survive cover all the pending ones and none
  of them covers another. The patch loop reaches \<^verbatim>\<open>replaceWith\<close> for a prefix of the
  selectors it is given, and rendering records no \<^verbatim>\<open>replaceWith\<close>.
\<close>

lemma subtrees_self: "d \<in> set (subtrees d)"
  by (cases d) simp_all

lemma subtrees_trans:
  "x \<in> set (subtrees y) \<Longrightarrow> w \<in> set (subtrees x) \<Longrightarrow> w \<in> set (subtrees y)"
proof (induction y rule: subtrees.induct)
  case (1 i t cs kids)
  from "1.prems"(1) consider "x = Element i t cs kids" | k where "k \<in> set kids" "x \<in> set (subtrees k)"
    by auto
  then show ?case
  proof cases
    case 1
    then show ?thesis using "1.prems"(2) by simp
  next
    case 2
    then have "w \<in> set (subtrees k)" using "1.IH" "1.prems"(2) by blast
    then show ?thesis using 2 by auto
  qed
next
  case (2 s)
  then show ?case by simp
qed

lemma subtrees_size: "x \<in> set (subtrees y) \<Longrightarrow> x = y \<or> size x < size y"
proof (induction y rule: subtrees.induct)
  case (1 i t cs kids)
  from "1.prems" consider "x = Element i t cs kids" | k where "k \<in> set kids" "x \<in> set (subtrees k)"
    by auto
  then show ?case
  proof cases
    case 1
    then show ?thesis by simp
  next
    case 2
    then have "x = k \<or> size x < size k" using "1.IH" by blast
    moreover have "size k < size (Element i t cs kids)"
      using 2(1) by (simp add: size_list_estimation' less_Suc_eq_le)
    ultimately show ?thesis by auto
  qed
next
  case (2 s)
  then show ?case by simp
qed

lemma subtrees_antisym:
  "x \<in> set (subtrees y) \<Longrightarrow> y \<in> set (subtrees x) \<Longrightarrow> x = y"
  using subtrees_size[of x y] subtrees_size[of y x] by auto

lemma covers_trans: "covers m cur u t \<Longrightarrow> covers m cur t s \<Longrightarrow> covers m cur u s"
  by (auto simp add: covers_def domContains_def split: option.splits intro: subtrees_trans)

lemma covers_antisym:
  "covers m cur s t \<Longrightarrow> covers m cur t s \<Longrightarrow> firstMatch m cur s = firstMatch m cur t"
  by (auto simp add: covers_def domContains_def split: option.splits intro: subtrees_antisym)

lemma containedInOther_result:
  "containedInOther m cur l a (firstMatch m cur (l ! a)) n = Inr r \<Longrightarrow>
     r = (\<exists>b<n. b \<noteq> a \<and> covers m cur (l ! b) (l ! a))"
proof (induction n arbitrary: r)
  case 0
  then show ?case by simp
next
  case (Suc n)
  show ?case
  proof (cases "a = n")
    case True
    then have "containedInOther m cur l a (firstMatch m cur (l ! a)) n = Inr r"
      using Suc.prems by simp
    then have "r = (\<exists>b<n. b \<noteq> a \<and> covers m cur (l ! b) (l ! a))" by (rule Suc.IH)
    then show ?thesis using True by (auto simp add: less_Suc_eq)
  next
    case False
    show ?thesis
    proof (cases "covers m cur (l ! n) (l ! a)")
      case True
      then have "r = True" using Suc.prems False
        by (auto simp add: covers_def split: option.splits if_splits)
      then show ?thesis using True False by auto
    next
      case nc: False
      then have "containedInOther m cur l a (firstMatch m cur (l ! a)) n = Inr r"
        using Suc.prems False
        by (auto simp add: covers_def split: option.splits if_splits)
      then have "r = (\<exists>b<n. b \<noteq> a \<and> covers m cur (l ! b) (l ! a))" by (rule Suc.IH)
      then show ?thesis using nc by (auto simp add: less_Suc_eq)
    qed
  qed
qed

lemma containedInOther_total:
  "\<forall>b<n. firstMatch m cur (l ! b) \<noteq> None \<Longrightarrow> \<exists>r. containedInOther m cur l a dc n = Inr r"
  by (induction n) (auto split: option.splits)

lemma spliceOne_nth:
  "a < length l \<Longrightarrow> i < length l - 1 \<Longrightarrow> spliceOne a l ! i = (if i < a then l ! i else l ! Suc i)"
  by (auto simp add: spliceOne_def nth_append min_def)

lemma spliceOne_len: "a < length l \<Longrightarrow> length (spliceOne a l) = length l - 1"
  by (simp add: spliceOne_def)

lemma spliceOne_subset: "set (spliceOne a l) \<subseteq> set l"
  by (auto simp add: spliceOne_def dest: in_set_takeD in_set_dropD)

lemma spliceOne_keeps:
  assumes "a < length l" "b < length l" "b \<noteq> a"
  shows "l ! b \<in> set (spliceOne a l)"
proof (cases "b < a")
  case True
  then have "l ! b \<in> set (take a l)" using assms by (auto simp add: in_set_conv_nth)
  then show ?thesis by (simp add: spliceOne_def)
next
  case False
  then have "b > a" using assms by simp
  then obtain k where k: "b = Suc a + k" by (metis less_iff_Suc_add add_Suc)
  then have "l ! b = drop (Suc a) l ! k" using assms by simp
  moreover have "k < length (drop (Suc a) l)" using assms k by simp
  ultimately have "l ! b \<in> set (drop (Suc a) l)" by (metis nth_mem)
  then show ?thesis by (simp add: spliceOne_def)
qed

lemma spliceOne_member:
  assumes "a < length l" "t \<in> set l"
  shows "t \<in> set (spliceOne a l) \<or> t = l ! a"
proof -
  obtain b where b: "b < length l" "l ! b = t" using assms(2) by (auto simp add: in_set_conv_nth)
  show ?thesis
  proof (cases "b = a")
    case True
    then show ?thesis using b by simp
  next
    case False
    then show ?thesis using spliceOne_keeps[OF assms(1) b(1) False] b by simp
  qed
qed

lemma settled_splice:
  assumes "a < length l" "settled m cur l (Suc a)"
  shows "settled m cur (spliceOne a l) a"
  unfolding settled_def
proof (intro allI impI)
  fix i j
  assume h: "a \<le> i \<and> i < length (spliceOne a l) \<and> j < length (spliceOne a l) \<and> i \<noteq> j"
  then have i: "i < length l - 1" and j: "j < length l - 1"
    using assms(1) by (simp_all add: spliceOne_len)
  have ni: "spliceOne a l ! i = l ! Suc i" using h i assms(1) by (simp add: spliceOne_nth)
  have nj: "spliceOne a l ! j = l ! (if j < a then j else Suc j)"
    using j assms(1) by (simp add: spliceOne_nth)
  have "Suc a \<le> Suc i \<and> Suc i < length l \<and> (if j < a then j else Suc j) < length l
      \<and> Suc i \<noteq> (if j < a then j else Suc j)"
    using h i j by auto
  then have "\<not> covers m cur (l ! (if j < a then j else Suc j)) (l ! Suc i)"
    using assms(2) unfolding settled_def by blast
  then show "\<not> covers m cur (spliceOne a l ! j) (spliceOne a l ! i)"
    by (simp add: ni nj)
qed

lemma represented_splice:
  assumes "a < length l" "b < length l" "b \<noteq> a" "covers m cur (l ! b) (l ! a)"
    and "represented m cur l0 l"
  shows "represented m cur l0 (spliceOne a l)"
  unfolding represented_def
proof
  fix s assume "s \<in> set l0"
  then obtain t where t: "t \<in> set l" "t = s \<or> covers m cur t s"
    using assms(5) unfolding represented_def by blast
  have keep: "l ! b \<in> set (spliceOne a l)" using assms(1,2,3) by (rule spliceOne_keeps)
  from spliceOne_member[OF assms(1) t(1)]
  show "\<exists>t \<in> set (spliceOne a l). t = s \<or> covers m cur t s"
  proof
    assume "t \<in> set (spliceOne a l)"
    then show ?thesis using t(2) by blast
  next
    assume ta: "t = l ! a"
    then have "covers m cur (l ! b) s"
      using t(2) assms(4) covers_trans by blast
    then show ?thesis using keep by blast
  qed
qed

lemma pruneLoop_invariant:
  "pruneLoop m cur l a = (None, l') \<Longrightarrow> a \<le> length l \<Longrightarrow> settled m cur l a \<Longrightarrow>
   represented m cur l0 l \<Longrightarrow>
     settled m cur l' 0 \<and> represented m cur l0 l' \<and> set l' \<subseteq> set l"
proof (induction a arbitrary: l)
  case 0
  then show ?case by simp
next
  case (Suc a)
  have al: "a < length l" using Suc.prems(2) by simp
  obtain r where r: "containedInOther m cur l a (firstMatch m cur (l ! a)) (length l) = Inr r"
    using Suc.prems(1) by (cases "containedInOther m cur l a (firstMatch m cur (l ! a)) (length l)") auto
  have rr: "r = (\<exists>b<length l. b \<noteq> a \<and> covers m cur (l ! b) (l ! a))"
    using r by (rule containedInOther_result)
  show ?case
  proof (cases r)
    case True
    then obtain b where b: "b < length l" "b \<noteq> a" "covers m cur (l ! b) (l ! a)"
      using rr by blast
    have run: "pruneLoop m cur (spliceOne a l) a = (None, l')"
      using Suc.prems(1) r True by simp
    have "settled m cur l' 0 \<and> represented m cur l0 l' \<and> set l' \<subseteq> set (spliceOne a l)"
    proof (rule Suc.IH[OF run])
      show "a \<le> length (spliceOne a l)" using al by (simp add: spliceOne_len)
      show "settled m cur (spliceOne a l) a" using al Suc.prems(3) by (rule settled_splice)
      show "represented m cur l0 (spliceOne a l)"
        using al b Suc.prems(4) by (rule represented_splice)
    qed
    then show ?thesis using spliceOne_subset[of a l] by blast
  next
    case False
    have run: "pruneLoop m cur l a = (None, l')"
      using Suc.prems(1) r False by simp
    have "settled m cur l a"
      unfolding settled_def
    proof (intro allI impI)
      fix i j assume h: "a \<le> i \<and> i < length l \<and> j < length l \<and> i \<noteq> j"
      show "\<not> covers m cur (l ! j) (l ! i)"
      proof (cases "i = a")
        case True
        then show ?thesis using rr False h by auto
      next
        case ne: False
        then have "Suc a \<le> i" using h by simp
        then show ?thesis using Suc.prems(3) h unfolding settled_def by blast
      qed
    qed
    then show ?thesis using Suc.IH[OF run] al Suc.prems(4) by simp
  qed
qed

lemma pruneLoop_total:
  "\<forall>s \<in> set l. firstMatch m cur s \<noteq> None \<Longrightarrow> a \<le> length l \<Longrightarrow> fst (pruneLoop m cur l a) = None"
proof (induction a arbitrary: l)
  case 0
  then show ?case by simp
next
  case (Suc a)
  have "\<forall>b<length l. firstMatch m cur (l ! b) \<noteq> None" using Suc.prems(1) by simp
  then obtain r where r: "containedInOther m cur l a (firstMatch m cur (l ! a)) (length l) = Inr r"
    using containedInOther_total by blast
  have al: "a < length l" using Suc.prems(2) by simp
  show ?case
  proof (cases r)
    case True
    have "fst (pruneLoop m cur (spliceOne a l) a) = None"
    proof (rule Suc.IH)
      show "\<forall>s \<in> set (spliceOne a l). firstMatch m cur s \<noteq> None"
        using Suc.prems(1) spliceOne_subset[of a l] by blast
      show "a \<le> length (spliceOne a l)" using al by (simp add: spliceOne_len)
    qed
    then show ?thesis using r True by simp
  next
    case False
    have "fst (pruneLoop m cur l a) = None" using Suc.prems(1) al by (intro Suc.IH) simp_all
    then show ?thesis using r False by simp
  qed
qed

lemma pruneSelectors_properties:
  assumes "pruneSelectors m cur l = (None, l')"
  shows "set l' \<subseteq> set l
       \<and> (\<forall>s \<in> set l'. \<forall>t \<in> set l'. s \<noteq> t \<longrightarrow> \<not> covers m cur t s)
       \<and> (\<forall>s \<in> set l. \<exists>t \<in> set l'. t = s \<or> covers m cur t s)"
proof (cases "length l > 1")
  case True
  then have run: "pruneLoop m cur l (length l) = (None, l')"
    using assms by (simp add: pruneSelectors_def)
  have "settled m cur l' 0 \<and> represented m cur l l' \<and> set l' \<subseteq> set l"
  proof (rule pruneLoop_invariant[OF run])
    show "length l \<le> length l" by simp
    show "settled m cur l (length l)" by (auto simp add: settled_def)
    show "represented m cur l l" unfolding represented_def by blast
  qed
  then have s: "settled m cur l' 0" and r: "represented m cur l l'" and sub: "set l' \<subseteq> set l"
    by simp_all
  have anti: "\<forall>s \<in> set l'. \<forall>t \<in> set l'. s \<noteq> t \<longrightarrow> \<not> covers m cur t s"
  proof (intro ballI impI)
    fix s t assume st: "s \<in> set l'" "t \<in> set l'" "s \<noteq> t"
    obtain i where i: "i < length l'" "l' ! i = s" using st(1) by (auto simp add: in_set_conv_nth)
    obtain j where j: "j < length l'" "l' ! j = t" using st(2) by (auto simp add: in_set_conv_nth)
    have "i \<noteq> j" using i j st(3) by auto
    then have "\<not> covers m cur (l' ! j) (l' ! i)" using s i(1) j(1) unfolding settled_def by simp
    then show "\<not> covers m cur t s" using i j by simp
  qed
  have rep: "\<forall>s \<in> set l. \<exists>t \<in> set l'. t = s \<or> covers m cur t s"
    using r unfolding represented_def .
  show ?thesis using sub anti rep by (intro conjI)
next
  case False
  then have eq: "l' = l" using assms by (simp add: pruneSelectors_def)
  have one: "\<And>s t. s \<in> set l \<Longrightarrow> t \<in> set l \<Longrightarrow> s = t"
  proof (cases l)
    case Nil
    fix s t assume "s \<in> set l" then show "s = t" using Nil by simp
  next
    case (Cons x xs)
    fix s t assume a: "s \<in> set l" "t \<in> set l"
    have "xs = []" using False Cons by simp
    then show "s = t" using Cons a by simp
  qed
  have a1: "\<forall>s \<in> set l. \<forall>t \<in> set l. s \<noteq> t \<longrightarrow> \<not> covers m cur t s"
    using one by blast
  have a2: "\<forall>s \<in> set l. \<exists>t \<in> set l. t = s \<or> covers m cur t s" by blast
  show ?thesis unfolding eq using a1 a2 by (intro conjI) simp_all
qed

lemma pruneSelectors_drops_inner:
  assumes "pruneSelectors m cur l = (None, l')"
    and "s \<in> set l" "t \<in> set l" "properlyInside m cur s t"
  shows "s \<notin> set l'"
proof
  assume sl: "s \<in> set l'"
  have p2: "\<forall>s \<in> set l'. \<forall>t \<in> set l'. s \<noteq> t \<longrightarrow> \<not> covers m cur t s"
    and p3: "\<forall>s \<in> set l. \<exists>t \<in> set l'. t = s \<or> covers m cur t s"
    using pruneSelectors_properties[OF assms(1)] by simp_all
  have ts: "covers m cur t s" and ne: "firstMatch m cur s \<noteq> firstMatch m cur t"
    using assms(4) by (simp_all add: properlyInside_def)
  obtain u where u: "u \<in> set l'" "u = t \<or> covers m cur u t" using p3 assms(3) by blast
  have us: "covers m cur u s"
  proof (cases "u = t")
    case True
    then show ?thesis using ts by simp
  next
    case False
    then have "covers m cur u t" using u(2) by simp
    then show ?thesis using ts by (rule covers_trans)
  qed
  show False
  proof (cases "u = s")
    case True
    then have "covers m cur s t" using u(2) ne by auto
    then have "firstMatch m cur s = firstMatch m cur t" using ts by (rule covers_antisym)
    then show False using ne by simp
  next
    case False
    then have "\<not> covers m cur u s" using p2 sl u(1) by simp
    then show False using us by simp
  qed
qed

lemma noPatchSince_refl: "noPatchSince c c"
  by (simp add: noPatchSince_def)

lemma noPatchSince_trans: "noPatchSince a b \<Longrightarrow> noPatchSince b c \<Longrightarrow> noPatchSince a c"
  by (auto simp add: noPatchSince_def)

lemma init_noPatch: "noPatchSince c (snd (init c))"
  by (auto simp add: init_def Let_def logEffect_def noPatchSince_def)

lemma initIfNeeded_noPatch: "noPatchSince c (snd (initIfNeeded c))"
  by (simp add: initIfNeeded_def init_noPatch noPatchSince_refl)

lemma loadingView_noPatch: "noPatchSince c (snd (loadingView e c))"
  by (simp add: loadingView_def jqueryOf_def noPatchSince_def)

lemma p_render_noPatch: "noPatchSince c (snd (p_render e c))"
  by (simp add: p_render_def jqueryOf_def noPatchSince_def split: list.splits prod.splits)

lemma renderValidated_noPatch: "noPatchSince c (snd (renderValidated e c))"
  using p_render_noPatch[of c e]
  by (auto simp add: renderValidated_def case_prod_unfold split: sum.splits option.splits jsref.splits)

lemma p_renderWithChildren_noPatch: "noPatchSince c (snd (p_renderWithChildren e c))"
proof -
  have a: "noPatchSince c (snd (initIfNeeded c))" by (rule initIfNeeded_noPatch)
  have b: "noPatchSince (snd (initIfNeeded c)) (snd (loadingView e (snd (initIfNeeded c))))"
    by (rule loadingView_noPatch)
  have d: "noPatchSince (snd (initIfNeeded c)) (snd (renderValidated e (snd (initIfNeeded c))))"
    by (rule renderValidated_noPatch)
  show ?thesis
    using a noPatchSince_trans[OF a b] noPatchSince_trans[OF a d]
    by (auto simp add: p_renderWithChildren_def case_prod_unfold split: sum.splits option.splits)
qed

lemma patchLoop_patched:
  "patchLoop m sels cur new p = (err, cur', new', patched) \<Longrightarrow>
     (\<exists>k \<le> length sels. patched = p @ take k sels) \<and> (err = None \<longrightarrow> patched = p @ sels)"
proof (induction sels arbitrary: cur new p)
  case Nil
  then show ?case by simp
next
  case (Cons sel rest)
  show ?case
  proof (cases "length (jqFind m sel cur) > 1 \<or> length (jqFind m sel new) > 1")
    case True
    then have "patched = p \<and> err = Some AmbiguousTargetError"
      using Cons.prems by (auto simp add: Let_def)
    then show ?thesis by auto
  next
    case False
    then obtain cur2 new2 where run: "patchLoop m rest cur2 new2 (p @ [sel]) = (err, cur', new', patched)"
      using Cons.prems
      by (auto simp add: Let_def split: list.splits option.splits)
    have "(\<exists>k \<le> length rest. patched = (p @ [sel]) @ take k rest)
        \<and> (err = None \<longrightarrow> patched = (p @ [sel]) @ rest)"
      using run by (rule Cons.IH)
    then obtain k where k: "k \<le> length rest" "patched = (p @ [sel]) @ take k rest"
      and full: "err = None \<longrightarrow> patched = (p @ [sel]) @ rest" by blast
    have "Suc k \<le> length (sel # rest) \<and> patched = p @ take (Suc k) (sel # rest)"
      using k by simp
    then show ?thesis using full by auto
  qed
qed

lemma indexOf_first: "x \<in> set l \<Longrightarrow> \<exists>i < length l. indexOf l x = int i \<and> l ! i = x"
proof (induction l)
  case Nil
  then show ?case by simp
next
  case (Cons y ys)
  show ?case
  proof (cases "y = x")
    case True
    then have "0 < length (y # ys) \<and> indexOf (y # ys) x = int 0 \<and> (y # ys) ! 0 = x" by simp
    then show ?thesis by blast
  next
    case False
    then have "x \<in> set ys" using Cons.prems by simp
    then obtain i where i: "i < length ys" "indexOf ys x = int i" "ys ! i = x"
      using Cons.IH by blast
    have "indexOf (y # ys) x = int i + 1" using i(2) False by (simp add: Let_def)
    then have "Suc i < length (y # ys) \<and> indexOf (y # ys) x = int (Suc i) \<and> (y # ys) ! Suc i = x"
      using i by simp
    then show ?thesis by blast
  qed
qed

lemma enumerate_member: "(i, x) \<in> set (enumerate 0 l) \<longleftrightarrow> i < length l \<and> l ! i = x"
  by (simp add: in_set_enumerate_eq)

lemma dedupe_sub: "x \<in> set (dedupe l) \<Longrightarrow> x \<in> set l"
proof -
  assume "x \<in> set (dedupe l)"
  then have "x \<in> snd ` set (filter (\<lambda>(pos, item). indexOf l item = int pos) (enumerate 0 l))"
    unfolding dedupe_def by (simp only: set_map)
  then obtain p where p: "x = snd p"
      "p \<in> set (filter (\<lambda>(pos, item). indexOf l item = int pos) (enumerate 0 l))"
    by (rule imageE)
  have "p \<in> set (enumerate 0 l)" using p(2) by (simp only: set_filter mem_Collect_eq)
  then have "(fst p, x) \<in> set (enumerate 0 l)" using p(1) by (simp only: prod.collapse)
  then have "fst p < length l \<and> l ! fst p = x" by (simp only: enumerate_member)
  then show "x \<in> set l" by (metis nth_mem)
qed

lemma dedupe_sup: "x \<in> set l \<Longrightarrow> x \<in> set (dedupe l)"
proof -
  assume "x \<in> set l"
  then have "\<exists>i < length l. indexOf l x = int i \<and> l ! i = x" by (rule indexOf_first)
  then obtain i where i: "i < length l" "indexOf l x = int i" "l ! i = x" by blast
  have "(i, x) \<in> set (enumerate 0 l)" using i(1,3) by (simp only: enumerate_member)
  moreover have "(\<lambda>(pos, item). indexOf l item = int pos) (i, x)" using i(2) by (simp only: prod.case)
  ultimately have "(i, x) \<in> set (filter (\<lambda>(pos, item). indexOf l item = int pos) (enumerate 0 l))"
    by (simp only: set_filter mem_Collect_eq)
  then have "snd (i, x) \<in> snd ` set (filter (\<lambda>(pos, item). indexOf l item = int pos) (enumerate 0 l))"
    by (rule imageI)
  then show "x \<in> set (dedupe l)" unfolding dedupe_def by (simp only: set_map snd_conv)
qed

lemma dedupe_set: "set (dedupe l) = set l"
  using dedupe_sub dedupe_sup by blast

lemma partialRefresh_calls:
  assumes j: "jqDom c = JQ cur"
  shows "\<exists>patched. (\<forall>s. ElementReplaced s \<in> set (callsSince c (snd (partialRefresh e l c)))
                        \<longleftrightarrow> s \<in> set patched)
           \<and> (patched = [] \<or> (\<exists>l'. pruneSelectors (matches e) (nodes cur) (dedupe l) = (None, l')
                  \<and> set patched \<subseteq> set l'
                  \<and> (fst (partialRefresh e l c) = None \<longrightarrow> set patched = set l')))
           \<and> (fst (partialRefresh e l c) = None \<longrightarrow> patched \<noteq> [] \<or> dedupe l = [])
           \<and> (fst (partialRefresh e l c) = None \<longrightarrow>
                  refreshList (snd (partialRefresh e l c)) = Selectors [])"
proof -
  define l1 where "l1 = dedupe l"
  define pruned where "pruned = pruneSelectors (matches e) (nodes cur) l1"
  define c1 where "c1 = c\<lparr>refreshList := Selectors (snd pruned)\<rparr>"
  have pr: "(if length l1 > 1
                    then (case jqDom c of
                            JQ cur \<Rightarrow> pruneSelectors (matches e) (nodes cur) l1
                          | _ \<Rightarrow> (Some TypeError, l1))
                    else (None, l1)) = pruned"
    using j by (simp add: pruned_def pruneSelectors_def)
  have unfold: "partialRefresh e l c =
      (case fst pruned of
           Some err \<Rightarrow> (Some err, c1)
         | None \<Rightarrow>
             (case p_renderWithChildren e c1 of
                (Inl err, c2) \<Rightarrow> (Some err, c2)
              | (Inr (jqNewComponent, insertedChildren), c2) \<Rightarrow>
                  (case (jqDom c2, jqNewComponent) of
                     (JQ cur, JQ new) \<Rightarrow>
                       (case patchLoop (matches e) (rev (snd pruned)) (nodes cur) (nodes new) [] of
                          (err, cur', new', patched) \<Rightarrow>
                            (let c3 = c2\<lparr>jqDom := JQ (cur\<lparr>nodes := cur'\<rparr>),
                                        trace := trace c2 @ map ElementReplaced patched\<rparr> in
                             case err of
                               Some x \<Rightarrow> (Some x, c3)
                             | None \<Rightarrow>
                                 if reanchorFails cur' (case insertedChildren of None \<Rightarrow> [] | Some ins \<Rightarrow> ins)
                                    \<or> insertedChildren = None
                                 then (Some TypeError, c3)
                                 else (None, c3\<lparr>refreshList := Selectors []\<rparr>)))
                   | _ \<Rightarrow> (Some TypeError, c2))))"
    unfolding partialRefresh_def Let_def l1_def[symmetric] pr c1_def[symmetric] ..
  have tr1: "trace c1 = trace c" by (simp add: c1_def)
  obtain xs where xs: "trace (snd (p_renderWithChildren e c1)) = trace c @ xs"
      "\<forall>s. ElementReplaced s \<notin> set xs"
    using p_renderWithChildren_noPatch[of c1 e] tr1 unfolding noPatchSince_def by auto
  show ?thesis
  proof (cases "fst pruned")
    case (Some err)
    then have "callsSince c (snd (partialRefresh e l c)) = [] \<and> fst (partialRefresh e l c) \<noteq> None"
      by (simp add: unfold callsSince_def tr1)
    then show ?thesis by (intro exI[of _ "[]"]) auto
  next
    case None
    then have pn: "pruned = (None, snd pruned)" by (metis prod.collapse)
    show ?thesis
    proof (cases "p_renderWithChildren e c1")
      case (Pair res c2)
      have tr2: "trace c2 = trace c @ xs" using xs(1) Pair by simp
      show ?thesis
      proof (cases res)
        case (Inl err)
        then have "callsSince c (snd (partialRefresh e l c)) = xs \<and> fst (partialRefresh e l c) \<noteq> None"
          using None Pair by (simp add: unfold callsSince_def tr2)
        then show ?thesis using xs(2) by (intro exI[of _ "[]"]) auto
      next
        case (Inr vi)
        obtain new ins where vi: "vi = (new, ins)" by (cases vi)
        show ?thesis
        proof (cases "\<exists>cu nw. jqDom c2 = JQ cu \<and> new = JQ nw")
          case False
          then have "callsSince c (snd (partialRefresh e l c)) = xs \<and> fst (partialRefresh e l c) \<noteq> None"
            using None Pair Inr vi
            by (auto simp add: unfold callsSince_def tr2 split: jsref.splits)
          then show ?thesis using xs(2) by (intro exI[of _ "[]"]) auto
        next
          case True
          then obtain cu nw where cn: "jqDom c2 = JQ cu" "new = JQ nw" by blast
          obtain err cur' new' patched where
            pl: "patchLoop (matches e) (rev (snd pruned)) (nodes cu) (nodes nw) [] = (err, cur', new', patched)"
            by (metis prod.collapse)
          have pp: "(\<exists>k \<le> length (rev (snd pruned)). patched = [] @ take k (rev (snd pruned)))
              \<and> (err = None \<longrightarrow> patched = [] @ rev (snd pruned))"
            using pl by (rule patchLoop_patched)
          have sub: "set patched \<subseteq> set (snd pruned)"
            using pp by (auto dest: in_set_takeD)
          define c3 where "c3 = c2\<lparr>jqDom := JQ (cu\<lparr>nodes := cur'\<rparr>),
                                        trace := trace c2 @ map ElementReplaced patched\<rparr>"
          have eq: "partialRefresh e l c =
              (case err of
                 Some x \<Rightarrow> (Some x, c3)
               | None \<Rightarrow>
                   if reanchorFails cur' (case ins of None \<Rightarrow> [] | Some ins \<Rightarrow> ins) \<or> ins = None
                   then (Some TypeError, c3)
                   else (None, c3\<lparr>refreshList := Selectors []\<rparr>))"
            unfolding unfold c3_def using None Pair Inr vi cn pl by (simp add: Let_def)
          have tr3: "trace (snd (partialRefresh e l c)) = trace c @ xs @ map ElementReplaced patched"
            unfolding eq by (cases err) (simp_all add: c3_def tr2)
          have calls: "callsSince c (snd (partialRefresh e l c)) = xs @ map ElementReplaced patched"
            unfolding callsSince_def tr3 by simp
          have ok: "fst (partialRefresh e l c) = None \<longrightarrow> err = None
                \<and> refreshList (snd (partialRefresh e l c)) = Selectors []"
            unfolding eq by (cases err) simp_all
          have mem: "\<forall>s. ElementReplaced s \<in> set (callsSince c (snd (partialRefresh e l c)))
                        \<longleftrightarrow> s \<in> set patched"
            using xs(2) by (auto simp add: calls)
          have full: "fst (partialRefresh e l c) = None \<longrightarrow> set patched = set (snd pruned)"
            using ok pp by auto
          have ex: "pruneSelectors (matches e) (nodes cur) (dedupe l) = (None, snd pruned)"
            using pn by (simp add: pruned_def l1_def)
          have nonempty: "fst (partialRefresh e l c) = None \<longrightarrow> patched \<noteq> [] \<or> dedupe l = []"
          proof
            assume f: "fst (partialRefresh e l c) = None"
            show "patched \<noteq> [] \<or> dedupe l = []"
            proof (cases "dedupe l = []")
              case True
              then show ?thesis by simp
            next
              case False
              then obtain s where "s \<in> set (dedupe l)" by (cases "dedupe l") auto
              then obtain t where "t \<in> set (snd pruned)"
                using pruneSelectors_properties[OF ex] by blast
              then show ?thesis using full f by auto
            qed
          qed
          have okr: "fst (partialRefresh e l c) = None \<longrightarrow>
                refreshList (snd (partialRefresh e l c)) = Selectors []"
            using ok by simp
          have mid: "patched = [] \<or> (\<exists>l'. pruneSelectors (matches e) (nodes cur) (dedupe l) = (None, l')
                  \<and> set patched \<subseteq> set l'
                  \<and> (fst (partialRefresh e l c) = None \<longrightarrow> set patched = set l'))"
            using ex sub full by (intro disjI2 exI[of _ "snd pruned"]) simp
          show ?thesis
            using mem mid nonempty okr by (intro exI[of _ patched] conjI)
        qed
      qed
    qed
  qed
qed

lemma p_refresh_partial:
  assumes "initialized c" "\<not> delayRefresh c" "jqDom c = JQ cur" "refreshList c = Selectors l" "l \<noteq> []"
  shows "fst (p_refresh e c) = fst (partialRefresh e l c)
       \<and> trace (snd (p_refresh e c)) = trace (snd (partialRefresh e l c))
       \<and> refreshList (snd (p_refresh e c)) = refreshList (snd (partialRefresh e l c))
       \<and> jqDom (snd (p_refresh e c)) = jqDom (snd (partialRefresh e l c))"
  using assms by (cases "fst (partialRefresh e l c)") (simp_all add: p_refresh_def case_prod_unfold)

lemma pruneSelectors_total:
  "\<forall>s \<in> set l. firstMatch m cur s \<noteq> None \<Longrightarrow> fst (pruneSelectors m cur l) = None"
  by (simp add: pruneSelectors_def pruneLoop_total)

lemma sampleRendered_record:
  "sampleRendered = sampleSimple\<lparr>jqDom := JQ \<lparr>ref = 0, nodes = sampleTree 10\<rparr>, initRendered := True,
                      nextRef := 1, trace := [TemplateEvaluated ''<div class=root></div>'']\<rparr>"
  by (simp add: sampleRendered_def sampleRendered_eval)

lemma samplePartial_fields:
  "initialized samplePartial \<and> \<not> delayRefresh samplePartial
   \<and> jqDom samplePartial = JQ \<lparr>ref = 0, nodes = sampleTree 10\<rparr>
   \<and> refreshList samplePartial = Selectors [''.a'', ''.b'']
   \<and> trace samplePartial = [TemplateEvaluated ''<div class=root></div>'']"
  by (simp add: samplePartial_def sampleRendered_record sampleSimple_eval sampleNew_def
      newComponent_def sampleConfig_def onChange_def changeStep_def dataStep_def
      bindingMatches_def regExpBinding_def noRegExp_def p_fetch_def Let_def)

lemma sample_firstMatch:
  "firstMatch classOrTag (sampleTree 10) ''.a''
     = Some (Element 11 ''div'' [''a''] [Element 12 ''p'' [''b''] []])
   \<and> firstMatch classOrTag (sampleTree 10) ''.b'' = Some (Element 12 ''p'' [''b''] [])"
  by (simp add: firstMatch_def jqFind_def sampleTree_def)

lemma sample_inside: "properlyInside classOrTag (sampleTree 10) ''.b'' ''.a''"
  by (simp add: properlyInside_def covers_def domContains_def sample_firstMatch)

lemma sample_dedupe: "dedupe [''.a'', ''.b''] = [''.a'', ''.b'']"
  by (simp add: dedupe_def enumerate_eq_zip)

lemma sample_prune:
  "pruneSelectors classOrTag (sampleTree 10) [''.a'', ''.b''] = (None, [''.a''])"
  by (simp add: pruneSelectors_def numeral_2_eq_2 sample_firstMatch domContains_def spliceOne_def)

lemma samplePartial_record:
  "samplePartial = sampleRendered\<lparr>refreshList := Selectors [''.a'', ''.b''], pendingRefresh := True\<rparr>"
  by (simp add: samplePartial_def sampleRendered_record sampleSimple_eval sampleNew_def
      newComponent_def sampleConfig_def onChange_def changeStep_def dataStep_def
      bindingMatches_def regExpBinding_def noRegExp_def p_fetch_def Let_def)

lemma sample_render_new:
  "p_renderWithChildren (sampleEnv 20) (samplePartial\<lparr>refreshList := Selectors [''.a'']\<rparr>)
     = (Inr (JQ \<lparr>ref = 1, nodes = sampleTree 20\<rparr>, Some []),
        samplePartial\<lparr>refreshList := Selectors [''.a''], nextRef := 2,
           trace := [TemplateEvaluated ''<div class=root></div>'', TemplateEvaluated ''<div class=root></div>'']\<rparr>)"
  by (simp add: samplePartial_record sampleRendered_record sampleSimple_eval sampleNew_def
      newComponent_def sampleConfig_def p_renderWithChildren_def initIfNeeded_def
      renderValidated_def p_render_def jqueryOf_def validateRender_def sampleEnv_def sampleTree_def)

lemma sample_patch:
  "patchLoop classOrTag [''.a''] (sampleTree 10) (sampleTree 20) []
     = (None,
        [Element 10 ''div'' [''root'']
           [Element 21 ''div'' [''a''] [Element 22 ''p'' [''b''] []], Element 13 ''span'' [''c''] []]],
        [Element 20 ''div'' [''root''] [Element 23 ''span'' [''c''] []]],
        [''.a''])"
  by (simp add: jqFind_def sampleTree_def Let_def)

lemma sample_partialRefresh:
  "partialRefresh (sampleEnv 20) [''.a'', ''.b''] samplePartial
     = (None,
        samplePartial\<lparr>refreshList := Selectors [], nextRef := 2,
           jqDom := JQ \<lparr>ref = 0, nodes = [Element 10 ''div'' [''root'']
             [Element 21 ''div'' [''a''] [Element 22 ''p'' [''b''] []], Element 13 ''span'' [''c''] []]]\<rparr>,
           trace := [TemplateEvaluated ''<div class=root></div>'', TemplateEvaluated ''<div class=root></div>'',
                     ElementReplaced ''.a'']\<rparr>)"
proof -
  have m: "matches (sampleEnv 20) = classOrTag" by (simp add: sampleEnv_def)
  have j: "jqDom samplePartial = JQ \<lparr>ref = 0, nodes = sampleTree 10\<rparr>"
    using samplePartial_fields by simp
  have j2: "jqDom (samplePartial\<lparr>refreshList := Selectors [''.a''], nextRef := 2,
           trace := [TemplateEvaluated ''<div class=root></div>'', TemplateEvaluated ''<div class=root></div>'']\<rparr>)
        = JQ \<lparr>ref = 0, nodes = sampleTree 10\<rparr>"
    using j by simp
  show ?thesis
    unfolding partialRefresh_def Let_def sample_dedupe m j
    by (simp add: sample_prune sample_render_new j2 sample_patch reanchorFails_def
        del: patchLoop.simps)
qed

lemma sampleRendered_fields:
  "initialized sampleRendered \<and> observing sampleRendered \<and> baseClassInstance sampleRendered = 0
   \<and> refreshList sampleRendered = Selectors []
   \<and> uiBindings sampleRendered = [(''participant_list'', RefreshSelectors [''.a'', ''.b'']), (''person_id'', RefreshAll)]
   \<and> dataBindings sampleRendered = [(''person_id'', \<lparr>methods = [''_fetchPersonList''], bindDelayRefresh = True\<rparr>)]"
  by (simp add: sampleRendered_record sampleSimple_eval sampleNew_def newComponent_def sampleConfig_def)


lemma sampleReady_eval: "initialized sampleReady \<and> refreshList sampleReady = Full"
  by (simp add: sampleReady_def samplePending_def sampleNew_def sampleConfig_def settleGroup_def
      init_def newComponent_def Let_def missingBindingMethod_def logEffect_def)

section \<open>Theorems\<close>

text \<open>
  C1 (evaluation of the code at the failing input). Two refresh requests for instance 0
  reach an empty scheduler within one window. The membership test of \<open>queueRefresh\<close>
  searches \<open>refreshQueue\<close>, which holds function objects, for the instance's number, so it
  never finds it: both requests are queued, the first timer finds the queue grown and
  does nothing, and when the second timer fires the flush calls the refresh closure of
  instance 0 twice. The same happens to an instance: two changes of \<open>participant_list\<close> on
  the rendered sample instance leave its refresh closure in the queue twice.
\<close>

theorem C1_duplicate_request_runs_twice:
  "refreshQueue (queueRefresh \<lparr>instanceId = 0, refreshFn = RefreshOf 0\<rparr>
      (queueRefresh \<lparr>instanceId = 0, refreshFn = RefreshOf 0\<rparr> emptyScheduler))
     = [Fn (RefreshOf 0), Fn (RefreshOf 0)]
   \<and> (case timerFires recordCall
            (queueRefresh \<lparr>instanceId = 0, refreshFn = RefreshOf 0\<rparr>
               (queueRefresh \<lparr>instanceId = 0, refreshFn = RefreshOf 0\<rparr> emptyScheduler)) [] of
         (e1, q1, called1) \<Rightarrow>
           called1 = [] \<and> snd (snd (timerFires recordCall q1 called1))
             = [Fn (RefreshOf 0), Fn (RefreshOf 0)])
   \<and> baseClassInstance sampleRendered = 0
   \<and> refreshQueue (sched (run noRegExp
          [Mutation [\<lparr>currentPath = ''participant_list''\<rparr>],
           Mutation [\<lparr>currentPath = ''participant_list''\<rparr>]]
          \<lparr>inst = sampleRendered, sched = emptyScheduler\<rparr>))
       = [Fn (RefreshOf 0), Fn (RefreshOf 0)]"
proof -
  have a: "refreshQueue (queueRefresh \<lparr>instanceId = 0, refreshFn = RefreshOf 0\<rparr>
      (queueRefresh \<lparr>instanceId = 0, refreshFn = RefreshOf 0\<rparr> emptyScheduler))
     = [Fn (RefreshOf 0), Fn (RefreshOf 0)]
   \<and> (case timerFires recordCall
            (queueRefresh \<lparr>instanceId = 0, refreshFn = RefreshOf 0\<rparr>
               (queueRefresh \<lparr>instanceId = 0, refreshFn = RefreshOf 0\<rparr> emptyScheduler)) [] of
         (e1, q1, called1) \<Rightarrow>
           called1 = [] \<and> snd (snd (timerFires recordCall q1 called1))
             = [Fn (RefreshOf 0), Fn (RefreshOf 0)])"
    by (simp add: queueRefresh_def emptyScheduler_def timerFires_def recordCall_def)
  have f: "initialized sampleRendered" "observing sampleRendered" "baseClassInstance sampleRendered = 0"
    "refreshList sampleRendered = Selectors []"
    "uiBindings sampleRendered = [(''participant_list'', RefreshSelectors [''.a'', ''.b'']), (''person_id'', RefreshAll)]"
    "dataBindings sampleRendered = [(''person_id'', \<lparr>methods = [''_fetchPersonList''], bindDelayRefresh = True\<rparr>)]"
    using sampleRendered_fields by simp_all
  have b: "refreshQueue (sched (run noRegExp
          [Mutation [\<lparr>currentPath = ''participant_list''\<rparr>],
           Mutation [\<lparr>currentPath = ''participant_list''\<rparr>]]
          \<lparr>inst = sampleRendered, sched = emptyScheduler\<rparr>))
       = [Fn (RefreshOf 0), Fn (RefreshOf 0)]"
    by (simp add: run_def step_def onChange_def f changeStep_def dataStep_def bindingMatches_def
        regExpBinding_def noRegExp_def p_fetch_def Let_def queueRefresh_def selfRequest_def
        emptyScheduler_def)
  show ?thesis using a b f(3) by simp
qed

text \<open>
  C2, against the claim as stated: the active init group of the sample instance has
  started (the count is 1, one group is outstanding) and then settles by failure. No group
  is outstanding any more and the count is still 1: a group that fails is not counted down.
\<close>

theorem C2_failed_group_is_not_counted_down:
  "pendingFetchCount samplePending = 1 \<and> groups samplePending = [InitActive]
   \<and> pendingFetchCount (inst (step noRegExp (Settled 0 False)
        \<lparr>inst = samplePending, sched = emptyScheduler\<rparr>)) = 1
   \<and> groups (inst (step noRegExp (Settled 0 False)
        \<lparr>inst = samplePending, sched = emptyScheduler\<rparr>)) = []"
  using samplePending_eval
  by (simp add: step_def settleGroup_def spliceOne_def Let_def)

text \<open>
  C2, amended. For every instance the constructor returns and every sequence of events,
  \<open>pendingFetchCount\<close> is at least zero. \<^verbatim>\<open>_fetch\<close> with a non-empty method list adds one
  to it and starts one group, and with an empty list does nothing; \<open>init\<close>, when it does
  not throw, adds one for the active group and one for the passive group it starts, if
  any. When a group settles with all its promises resolved, the count goes down by one.
  When it settles by failure, the instance and the scheduler stay as they are: the count
  is not decremented.
\<close>

theorem C2_pending_fetch_count:
  "(constructor doc name cfg data n st = (Inr c0, st') \<longrightarrow>
      0 \<le> pendingFetchCount (inst (run rx evs \<lparr>inst = c0, sched = q\<rparr>)))
   \<and> (fetchList \<noteq> [] \<longrightarrow>
        pendingFetchCount (p_fetch d fetchList c) = pendingFetchCount c + 1
        \<and> groups (p_fetch d fetchList c) = groups c @ [FetchGroup d])
   \<and> p_fetch d [] c = c
   \<and> (fst (init c) = None \<longrightarrow>
        groups (snd (init c)) = groups c
          @ (if filter preventRender (filter (\<lambda>e. condition e \<noteq> Some False) (initList c)) \<noteq> []
             then [InitActive] else [])
          @ (if filter (\<lambda>e. \<not> preventRender e) (filter (\<lambda>e. condition e \<noteq> Some False) (initList c)) \<noteq> []
             then [InitPassive] else [])
        \<and> pendingFetchCount (snd (init c))
            = pendingFetchCount c + int (length (groups (snd (init c)))) - int (length (groups c)))
   \<and> pendingFetchCount (fst (settleGroup g True (c, q))) = pendingFetchCount c - 1
   \<and> settleGroup g False (c, q) = (c, q)"
proof -
  have "constructor doc name cfg data n st = (Inr c0, st') \<Longrightarrow>
      0 \<le> pendingFetchCount (inst (run rx evs \<lparr>inst = c0, sched = q\<rparr>))"
  proof -
    assume "constructor doc name cfg data n st = (Inr c0, st')"
    then have "countCoversGroups c0" by (rule constructor_inv)
    then have "countCoversGroups (inst (run rx evs \<lparr>inst = c0, sched = q\<rparr>))"
      using run_inv[of "\<lparr>inst = c0, sched = q\<rparr>" rx evs] by simp
    then show ?thesis by (simp add: countCoversGroups_def)
  qed
  then show ?thesis
    using p_fetch_count[of fetchList d c] p_fetch_empty[of d c] init_count[of c]
      settle_ok_count[of g c q] settle_failed[of g "(c, q)"]
    by blast
qed

text \<open>
  The witness: the sample instance is constructed, its init group resolves, \<open>person_id\<close>
  changes (which starts a fetch group) and that group fails.
\<close>

theorem C2_witness:
  "0 \<le> pendingFetchCount (inst (run noRegExp [Settled 0 True, Mutation [\<lparr>currentPath = ''person_id''\<rparr>], Settled 0 False]
           \<lparr>inst = samplePending, sched = emptyScheduler\<rparr>))
   \<and> pendingFetchCount (p_fetch True [''_fetchPersonList''] sampleReady) = pendingFetchCount sampleReady + 1
   \<and> groups (snd (init sampleNew)) = groups sampleNew @ [InitActive]
   \<and> pendingFetchCount (snd (init sampleNew)) = 1
   \<and> pendingFetchCount (fst (settleGroup InitActive True (samplePending, emptyScheduler))) = 0"
proof -
  have i: "fst (init sampleNew) = None"
    by (simp add: sample_defs)
  have g: "groups sampleNew = [] \<and> pendingFetchCount sampleNew = 0
      \<and> initList sampleNew = [\<lparr>methodName = ''_fetchTeamCoverage'', preventRender = True, condition = None\<rparr>]"
    by (simp add: sample_defs)
  have n: "[''_fetchPersonList''] \<noteq> []" by simp
  show ?thesis
    using C2_pending_fetch_count[where doc = noDocument and name = "''CMAddTask''" and cfg = sampleConfig
        and data = "DataObject 0" and n = 0 and st = sampleStore and ?c0.0 = samplePending
        and st' = "mergeData (defaultsData sampleConfig) (DataObject 0) sampleStore"
        and rx = noRegExp
        and evs = "[Settled 0 True, Mutation [\<lparr>currentPath = ''person_id''\<rparr>], Settled 0 False]"
        and q = emptyScheduler and fetchList = "[''_fetchPersonList'']" and d = True
        and c = sampleReady and g = InitActive]
      C2_pending_fetch_count[where doc = noDocument and name = "''CMAddTask''" and cfg = sampleConfig
        and data = "DataObject 0" and n = 0 and st = sampleStore and ?c0.0 = samplePending
        and st' = "mergeData (defaultsData sampleConfig) (DataObject 0) sampleStore"
        and rx = noRegExp and evs = "[]"
        and q = emptyScheduler and fetchList = "[''_fetchPersonList'']" and d = True
        and c = sampleNew and g = InitActive]
      C2_pending_fetch_count[where doc = noDocument and name = "''CMAddTask''" and cfg = sampleConfig
        and data = "DataObject 0" and n = 0 and st = sampleStore and ?c0.0 = samplePending
        and st' = "mergeData (defaultsData sampleConfig) (DataObject 0) sampleStore"
        and rx = noRegExp and evs = "[]"
        and q = emptyScheduler and fetchList = "[''_fetchPersonList'']" and d = True
        and c = samplePending and g = InitActive]
      sample_constructed i g n samplePending_eval
    by simp
qed
text \<open>
  C3, against the claim as stated: a \<^verbatim>\<open>_render\<close> override returns a jQuery collection
  with two root elements, and \<open>render\<close> on an initialized, not yet rendered instance
  returns that collection and raises nothing.
\<close>

theorem C3_two_roots_are_accepted:
  "initialized (sampleSimple\<lparr>overridesRender := True\<rparr>)
   \<and> \<not> initRendered (sampleSimple\<lparr>overridesRender := True\<rparr>)
   \<and> fst (render ((sampleEnv 10)\<lparr>renderResult := twoRoots\<rparr>) (sampleSimple\<lparr>overridesRender := True\<rparr>))
       = Inr twoRoots
   \<and> length (nodes (case twoRoots of JQ j \<Rightarrow> j)) = 2"
  using sampleSimple_fields
  by (simp add: render_def initIfNeeded_def renderValidated_def p_render_def validateRender_def
      twoRoots_def sampleEnv_def)

text \<open>
  C3, amended. On an initialized instance that is not quiescent, \<open>render\<close> checks what
  \<^verbatim>\<open>_render\<close> returned: a value that is not a jQuery collection, an empty collection, or
  a collection whose first member is not an element raises RenderContractViolation, with
  no field assigned after \<^verbatim>\<open>_render\<close>; \<^verbatim>\<open>null\<close> or \<^verbatim>\<open>undefined\<close> raises a TypeError. A
  collection whose first member is an element passes the check, however many members it
  has: the children are inserted, and unless that throws the collection is cached and
  returned and the instance is marked rendered.
\<close>

theorem C3_render_validates_result:
  assumes "initialized c" and "\<not> (refreshList c = Selectors [] \<and> initRendered c)"
    and "p_render e c = (Inr v, c1)"
  shows "((v = JOther \<or> (\<exists>j. v = JQ j \<and> (nodes j = [] \<or> \<not> isElement (hd (nodes j)))))
            \<longrightarrow> render e c = (Inl RenderContractViolation, c1))
       \<and> ((v = JNull \<or> v = JUndefined) \<longrightarrow> render e c = (Inl TypeError, c1))
       \<and> (\<forall>j. v = JQ j \<and> nodes j \<noteq> [] \<and> isElement (hd (nodes j)) \<longrightarrow>
            (case insertChildren e j of
               Inl err \<Rightarrow> render e c = (Inl err, c1)
             | Inr (spliced, ins) \<Rightarrow>
                 render e c = (Inr (JQ (j\<lparr>nodes := spliced\<rparr>)),
                               c1\<lparr>initRendered := True, jqDom := JQ (j\<lparr>nodes := spliced\<rparr>)\<rparr>)))"
  using assms(3)
  by (auto simp add: render_full[OF assms(1,2)] renderValidated_def validateRender_def
      split: list.splits sum.splits)

text \<open>
  The witness: an override that returns an empty collection.
\<close>

theorem C3_witness:
  "render ((sampleEnv 10)\<lparr>renderResult := JQ \<lparr>ref = 5, nodes = []\<rparr>\<rparr>) (sampleSimple\<lparr>overridesRender := True\<rparr>)
     = (Inl RenderContractViolation, sampleSimple\<lparr>overridesRender := True\<rparr>)"
proof -
  have h: "initialized (sampleSimple\<lparr>overridesRender := True\<rparr>)"
    "\<not> (refreshList (sampleSimple\<lparr>overridesRender := True\<rparr>) = Selectors []
        \<and> initRendered (sampleSimple\<lparr>overridesRender := True\<rparr>))"
    using sampleSimple_fields by simp_all
  have p: "p_render ((sampleEnv 10)\<lparr>renderResult := JQ \<lparr>ref = 5, nodes = []\<rparr>\<rparr>) (sampleSimple\<lparr>overridesRender := True\<rparr>)
     = (Inr (JQ \<lparr>ref = 5, nodes = []\<rparr>), sampleSimple\<lparr>overridesRender := True\<rparr>)"
    by (simp add: p_render_def)
  show ?thesis
    using C3_render_validates_result[OF h p] by simp
qed
text \<open>
  C4. Once the refresh state of an instance is \<^verbatim>\<open>true\<close>, the change handler leaves it
  \<^verbatim>\<open>true\<close> whatever the changes and the bindings are, and so does every other thing that
  can happen to the instance, except the scheduler's flush: running \<^verbatim>\<open>_refresh\<close> leaves it
  \<^verbatim>\<open>true\<close> or resets it to the empty array. It is never narrowed to a non-empty
  selector array.
\<close>

theorem C4_full_refresh_state_is_sticky:
  assumes "refreshList (inst s) = Full"
  shows "refreshList (fst (onChange rx changes (inst s, sched s))) = Full
       \<and> (refreshList (inst (step rx ev s)) = Full
           \<or> ((\<exists>e. ev = TimerFired e) \<and> refreshList (inst (step rx ev s)) = Selectors []))"
  using assms onChange_Full step_Full by blast

text \<open>The witness: the sample instance after its init group resolved, hit by a change that a selector binding matches.\<close>

theorem C4_witness:
  "refreshList (inst \<lparr>inst = sampleReady, sched = emptyScheduler\<rparr>) = Full
   \<and> refreshList (fst (onChange noRegExp [\<lparr>currentPath = ''participant_list''\<rparr>]
        (inst \<lparr>inst = sampleReady, sched = emptyScheduler\<rparr>, sched \<lparr>inst = sampleReady, sched = emptyScheduler\<rparr>))) = Full
   \<and> refreshList (inst (step noRegExp (Mutation [\<lparr>currentPath = ''participant_list''\<rparr>])
        \<lparr>inst = sampleReady, sched = emptyScheduler\<rparr>)) = Full"
proof -
  have h: "refreshList (inst \<lparr>inst = sampleReady, sched = emptyScheduler\<rparr>) = Full"
    using sampleReady_eval by simp
  have o: "observing sampleReady"
    by (simp add: sampleReady_def samplePending_def sampleNew_def sampleConfig_def settleGroup_def
      init_def newComponent_def Let_def missingBindingMethod_def logEffect_def)
  show ?thesis
    using h C4_full_refresh_state_is_sticky[OF h, of noRegExp "[\<lparr>currentPath = ''participant_list''\<rparr>]"
        "Mutation [\<lparr>currentPath = ''participant_list''\<rparr>]"]
    by auto
qed

text \<open>
  C5. While the \<^verbatim>\<open>initialized\<close> flag of an instance is not set, the change handler
  returns the instance and the scheduler as they were, for every batch of changes: the
  refresh state, the count of pending fetches, the delay-refresh gate, the recorded calls
  and the scheduler's queue and timers are all unchanged.
\<close>

theorem C5_no_effect_before_initialized:
  "\<not> initialized c \<Longrightarrow> onChange rx changes (c, q) = (c, q)"
  by (simp add: onChange_def)

text \<open>
  The witness: the sample instance while its init group is pending ignores a change of
  \<open>person_id\<close>, which the same instance, once initialized, answers with a fetch.
\<close>

theorem C5_witness:
  "\<not> initialized samplePending
   \<and> onChange noRegExp [\<lparr>currentPath = ''person_id''\<rparr>] (samplePending, emptyScheduler)
       = (samplePending, emptyScheduler)
   \<and> fst (onChange noRegExp [\<lparr>currentPath = ''person_id''\<rparr>]
            (samplePending\<lparr>initialized := True\<rparr>, emptyScheduler))
       \<noteq> samplePending\<lparr>initialized := True\<rparr>"
proof -
  have h: "\<not> initialized samplePending"
    by (simp add: samplePending_def sampleNew_def sampleConfig_def
      init_def newComponent_def Let_def missingBindingMethod_def logEffect_def)
  have d: "delayRefresh (fst (onChange noRegExp [\<lparr>currentPath = ''person_id''\<rparr>]
            (samplePending\<lparr>initialized := True\<rparr>, emptyScheduler)))"
    by (simp add: onChange_def changeStep_def dataStep_def bindingMatches_def regExpBinding_def
      p_fetch_def noRegExp_def
      samplePending_def sampleNew_def sampleConfig_def
      init_def newComponent_def Let_def missingBindingMethod_def logEffect_def)
  have nd: "\<not> delayRefresh (samplePending\<lparr>initialized := True\<rparr>)"
    by (simp add: samplePending_def sampleNew_def sampleConfig_def
      init_def newComponent_def Let_def missingBindingMethod_def logEffect_def)
  from d nd have "fst (onChange noRegExp [\<lparr>currentPath = ''person_id''\<rparr>]
            (samplePending\<lparr>initialized := True\<rparr>, emptyScheduler))
       \<noteq> samplePending\<lparr>initialized := True\<rparr>" by metis
  then show ?thesis
    using h C5_no_effect_before_initialized[OF h, of noRegExp "[\<lparr>currentPath = ''person_id''\<rparr>]" emptyScheduler]
    by simp
qed



text \<open>
  C7. \<^verbatim>\<open>_refresh\<close> runs on an initialized instance whose delay gate is clear, whose
  \<open>jqDom\<close> is a jQuery collection and whose refresh state is a non-empty selector array
  \<open>l\<close>. Every selector whose \<^verbatim>\<open>replaceWith\<close> this refresh reaches is a selector of \<open>l\<close>
  whose matched element is not a proper descendant of the matched element of another
  selector of \<open>l\<close>: such a selector is removed before the patching. When the refresh
  returns normally, the refresh state is the empty array, and each selector of \<open>l\<close> was
  patched itself or has its matched element inside that of a patched one. When every
  selector of \<open>l\<close> matches an element of the current tree, the removal of the contained
  selectors does not throw.
\<close>

theorem C7_partial_refresh_skips_contained_selectors:
  assumes "initialized c" and "\<not> delayRefresh c" and "jqDom c = JQ cur"
    and "refreshList c = Selectors l" and "l \<noteq> []"
  shows "(\<forall>s. ElementReplaced s \<in> set (callsSince c (snd (p_refresh e c))) \<longrightarrow>
            s \<in> set l \<and> \<not> (\<exists>t \<in> set l. properlyInside (matches e) (nodes cur) s t))
       \<and> (fst (p_refresh e c) = None \<longrightarrow>
            refreshList (snd (p_refresh e c)) = Selectors []
            \<and> (\<forall>s \<in> set l. \<exists>t. ElementReplaced t \<in> set (callsSince c (snd (p_refresh e c)))
                                \<and> (t = s \<or> covers (matches e) (nodes cur) t s)))
       \<and> ((\<forall>s \<in> set l. firstMatch (matches e) (nodes cur) s \<noteq> None) \<longrightarrow>
            fst (pruneSelectors (matches e) (nodes cur) (dedupe l)) = None)"
proof -
  have same: "fst (p_refresh e c) = fst (partialRefresh e l c)"
    "callsSince c (snd (p_refresh e c)) = callsSince c (snd (partialRefresh e l c))"
    "refreshList (snd (p_refresh e c)) = refreshList (snd (partialRefresh e l c))"
    using p_refresh_partial[OF assms, of e] by (simp_all add: callsSince_def)
  obtain patched where all:
    "(\<forall>s. ElementReplaced s \<in> set (callsSince c (snd (partialRefresh e l c))) \<longleftrightarrow> s \<in> set patched)
     \<and> (patched = [] \<or> (\<exists>l'. pruneSelectors (matches e) (nodes cur) (dedupe l) = (None, l')
                  \<and> set patched \<subseteq> set l'
                  \<and> (fst (partialRefresh e l c) = None \<longrightarrow> set patched = set l')))
     \<and> (fst (partialRefresh e l c) = None \<longrightarrow> patched \<noteq> [] \<or> dedupe l = [])
     \<and> (fst (partialRefresh e l c) = None \<longrightarrow>
                  refreshList (snd (partialRefresh e l c)) = Selectors [])"
    using partialRefresh_calls[OF assms(3), of e l] by (rule exE)
  have mem: "\<forall>s. ElementReplaced s \<in> set (callsSince c (snd (partialRefresh e l c))) \<longleftrightarrow> s \<in> set patched"
    using all by (rule conjunct1)
  have mid: "patched = [] \<or> (\<exists>l'. pruneSelectors (matches e) (nodes cur) (dedupe l) = (None, l')
                  \<and> set patched \<subseteq> set l'
                  \<and> (fst (partialRefresh e l c) = None \<longrightarrow> set patched = set l'))"
    using all[THEN conjunct2] by (rule conjunct1)
  have nonempty: "fst (partialRefresh e l c) = None \<longrightarrow> patched \<noteq> [] \<or> dedupe l = []"
    using all[THEN conjunct2, THEN conjunct2] by (rule conjunct1)
  have okr: "fst (partialRefresh e l c) = None \<longrightarrow>
                  refreshList (snd (partialRefresh e l c)) = Selectors []"
    using all[THEN conjunct2, THEN conjunct2] by (rule conjunct2)
  have part1: "\<forall>s. ElementReplaced s \<in> set (callsSince c (snd (partialRefresh e l c))) \<longrightarrow>
            s \<in> set l \<and> \<not> (\<exists>t \<in> set l. properlyInside (matches e) (nodes cur) s t)"
  proof (intro allI impI)
    fix s assume "ElementReplaced s \<in> set (callsSince c (snd (partialRefresh e l c)))"
    then have sp: "s \<in> set patched" using mem by simp
    then have "patched \<noteq> []" by auto
    then obtain l' where l': "pruneSelectors (matches e) (nodes cur) (dedupe l) = (None, l')"
      "set patched \<subseteq> set l'" using mid by blast
    have sl': "s \<in> set l'" using sp l'(2) by (rule subsetD[rotated])
    have "set l' \<subseteq> set (dedupe l)" using pruneSelectors_properties[OF l'(1)] by simp
    then have sl: "s \<in> set l" using sl' by (auto simp add: dedupe_set)
    have "\<not> (\<exists>t \<in> set l. properlyInside (matches e) (nodes cur) s t)"
    proof
      assume "\<exists>t \<in> set l. properlyInside (matches e) (nodes cur) s t"
      then obtain t where t: "t \<in> set l" "properlyInside (matches e) (nodes cur) s t" by (rule bexE)
      have "s \<notin> set l'"
        using l'(1) sl t by (intro pruneSelectors_drops_inner[where l = "dedupe l" and t = t])
          (simp_all add: dedupe_set)
      then show False using sl' by simp
    qed
    then show "s \<in> set l \<and> \<not> (\<exists>t \<in> set l. properlyInside (matches e) (nodes cur) s t)"
      using sl by simp
  qed
  have part2: "fst (partialRefresh e l c) = None \<longrightarrow>
            (\<forall>s \<in> set l. \<exists>t. ElementReplaced t \<in> set (callsSince c (snd (partialRefresh e l c)))
                                \<and> (t = s \<or> covers (matches e) (nodes cur) t s))"
  proof (intro impI ballI)
    fix s assume f: "fst (partialRefresh e l c) = None" and s: "s \<in> set l"
    have "dedupe l \<noteq> []" using s dedupe_set[of l] by auto
    then have "patched \<noteq> []" using nonempty f by simp
    then obtain l' where l': "pruneSelectors (matches e) (nodes cur) (dedupe l) = (None, l')"
      "set patched = set l'" using mid f by blast
    have "\<forall>s \<in> set (dedupe l). \<exists>t \<in> set l'. t = s \<or> covers (matches e) (nodes cur) t s"
      using pruneSelectors_properties[OF l'(1)] by simp
    then obtain t where t: "t \<in> set l'" "t = s \<or> covers (matches e) (nodes cur) t s"
      using s by (auto simp add: dedupe_set)
    have "ElementReplaced t \<in> set (callsSince c (snd (partialRefresh e l c)))"
      using t(1) l'(2) mem by simp
    then show "\<exists>t. ElementReplaced t \<in> set (callsSince c (snd (partialRefresh e l c)))
                                \<and> (t = s \<or> covers (matches e) (nodes cur) t s)"
      using t(2) by (intro exI[of _ t]) simp
  qed
  have part3: "(\<forall>s \<in> set l. firstMatch (matches e) (nodes cur) s \<noteq> None) \<longrightarrow>
            fst (pruneSelectors (matches e) (nodes cur) (dedupe l)) = None"
  proof
    assume "\<forall>s \<in> set l. firstMatch (matches e) (nodes cur) s \<noteq> None"
    then have "\<forall>s \<in> set (dedupe l). firstMatch (matches e) (nodes cur) s \<noteq> None"
      unfolding dedupe_set .
    then show "fst (pruneSelectors (matches e) (nodes cur) (dedupe l)) = None"
      by (rule pruneSelectors_total)
  qed
  have part2': "fst (partialRefresh e l c) = None \<longrightarrow>
            refreshList (snd (partialRefresh e l c)) = Selectors []
            \<and> (\<forall>s \<in> set l. \<exists>t. ElementReplaced t \<in> set (callsSince c (snd (partialRefresh e l c)))
                                \<and> (t = s \<or> covers (matches e) (nodes cur) t s))"
    using part2 okr by blast
  show ?thesis
    unfolding same using part1 part2' part3 by (intro conjI)
qed

text \<open>
  The witness: the refresh state is \<open>['.a', '.b']\<close> and the element of \<open>.b\<close> lies inside
  the element of \<open>.a\<close>. Only \<open>.a\<close> is patched: its subtree, the inner element included,
  comes from the new tree, while the root and the sibling stay.
\<close>

theorem C7_witness:
  "initialized samplePartial \<and> \<not> delayRefresh samplePartial
   \<and> jqDom samplePartial = JQ \<lparr>ref = 0, nodes = sampleTree 10\<rparr>
   \<and> refreshList samplePartial = Selectors [''.a'', ''.b'']
   \<and> properlyInside classOrTag (sampleTree 10) ''.b'' ''.a''
   \<and> fst (p_refresh (sampleEnv 20) samplePartial) = None
   \<and> callsSince samplePartial (snd (p_refresh (sampleEnv 20) samplePartial))
        = [TemplateEvaluated ''<div class=root></div>'', ElementReplaced ''.a'']
   \<and> ElementReplaced ''.b'' \<notin> set (callsSince samplePartial (snd (p_refresh (sampleEnv 20) samplePartial)))
   \<and> refreshList (snd (p_refresh (sampleEnv 20) samplePartial)) = Selectors []
   \<and> jqDom (snd (p_refresh (sampleEnv 20) samplePartial))
        = JQ \<lparr>ref = 0, nodes = [Element 10 ''div'' [''root'']
             [Element 21 ''div'' [''a''] [Element 22 ''p'' [''b''] []], Element 13 ''span'' [''c''] []]]\<rparr>"
proof -
  have h: "initialized samplePartial" "\<not> delayRefresh samplePartial"
    "jqDom samplePartial = JQ \<lparr>ref = 0, nodes = sampleTree 10\<rparr>"
    "refreshList samplePartial = Selectors [''.a'', ''.b'']" "[''.a'', ''.b''] \<noteq> []"
    using samplePartial_fields by simp_all
  have t: "trace samplePartial = [TemplateEvaluated ''<div class=root></div>'']"
    using samplePartial_fields by simp
  have m: "matches (sampleEnv 20) = classOrTag" by (simp add: sampleEnv_def)
  have same: "fst (p_refresh (sampleEnv 20) samplePartial) = fst (partialRefresh (sampleEnv 20) [''.a'', ''.b''] samplePartial)
       \<and> trace (snd (p_refresh (sampleEnv 20) samplePartial)) = trace (snd (partialRefresh (sampleEnv 20) [''.a'', ''.b''] samplePartial))
       \<and> refreshList (snd (p_refresh (sampleEnv 20) samplePartial)) = refreshList (snd (partialRefresh (sampleEnv 20) [''.a'', ''.b''] samplePartial))
       \<and> jqDom (snd (p_refresh (sampleEnv 20) samplePartial)) = jqDom (snd (partialRefresh (sampleEnv 20) [''.a'', ''.b''] samplePartial))"
    using h by (rule p_refresh_partial)
  have ev: "fst (p_refresh (sampleEnv 20) samplePartial) = None
     \<and> callsSince samplePartial (snd (p_refresh (sampleEnv 20) samplePartial))
        = [TemplateEvaluated ''<div class=root></div>'', ElementReplaced ''.a'']
     \<and> refreshList (snd (p_refresh (sampleEnv 20) samplePartial)) = Selectors []
     \<and> jqDom (snd (p_refresh (sampleEnv 20) samplePartial))
        = JQ \<lparr>ref = 0, nodes = [Element 10 ''div'' [''root'']
             [Element 21 ''div'' [''a''] [Element 22 ''p'' [''b''] []], Element 13 ''span'' [''c''] []]]\<rparr>"
    using same by (simp add: callsSince_def t sample_partialRefresh)
  have inside: "properlyInside (matches (sampleEnv 20)) (nodes \<lparr>ref = 0, nodes = sampleTree 10\<rparr>) ''.b'' ''.a''"
    using sample_inside by (simp add: m)
  have "\<forall>s. ElementReplaced s \<in> set (callsSince samplePartial (snd (p_refresh (sampleEnv 20) samplePartial))) \<longrightarrow>
            s \<in> set [''.a'', ''.b'']
            \<and> \<not> (\<exists>t \<in> set [''.a'', ''.b'']. properlyInside (matches (sampleEnv 20))
                  (nodes \<lparr>ref = 0, nodes = sampleTree 10\<rparr>) s t)"
    using C7_partial_refresh_skips_contained_selectors[OF h, of "sampleEnv 20"] by (rule conjunct1)
  then have "ElementReplaced ''.b'' \<notin> set (callsSince samplePartial (snd (p_refresh (sampleEnv 20) samplePartial)))"
    using inside by auto
  then show ?thesis using h ev sample_inside by simp
qed

text \<open>
  C8. \<open>registerChild\<close> called with a section name and a single component instead of an
  array raises ConfigurationError and returns the instance, its child registry included,
  as it was.
\<close>

theorem C8_non_sequence_in_named_section:
  "registerChild (Component n) (Some sectionName) c = (Some ConfigurationError, c)"
  by (simp add: registerChild_def)



text \<open>
  C10, against the claim as stated: the instance defines \<^verbatim>\<open>_renderLoading\<close>, which
  returns the loading view it keeps; two consecutive calls of \<open>render\<close> while the init
  group is pending return the same jQuery object.
\<close>

theorem C10_custom_loading_view_is_reused:
  "\<not> initialized (samplePending\<lparr>callables := [''_renderLoading'']\<rparr>)
   \<and> pendingInit (samplePending\<lparr>callables := [''_renderLoading'']\<rparr>)
   \<and> fst (render ((sampleEnv 10)\<lparr>renderLoadingResult := cachedLoading\<rparr>)
            (samplePending\<lparr>callables := [''_renderLoading'']\<rparr>)) = Inr cachedLoading
   \<and> fst (render ((sampleEnv 10)\<lparr>renderLoadingResult := cachedLoading\<rparr>)
            (snd (render ((sampleEnv 10)\<lparr>renderLoadingResult := cachedLoading\<rparr>)
                    (samplePending\<lparr>callables := [''_renderLoading'']\<rparr>)))) = Inr cachedLoading"
  using samplePending_eval
  by (simp add: render_def initIfNeeded_def loadingView_def)

text \<open>
  C10, amended. While initialization is pending, \<open>render\<close> returns the loading view,
  stores it in \<open>jqDom\<close> and leaves \<open>initRendered\<close>, \<open>initialized\<close> and \<open>pendingInit\<close> alone.
  With a custom \<^verbatim>\<open>_renderLoading\<close> the view is whatever that method returns. Without one,
  it is a new jQuery object built from the loading template, and the next such call
  builds another one, with a different identity, stores it in \<open>jqDom\<close> and again leaves
  \<open>initRendered\<close> alone.
\<close>

theorem C10_loading_render:
  assumes "\<not> initialized c" and "pendingInit c"
  shows "fst (render e c) = Inr (jqDom (snd (render e c)))
       \<and> initRendered (snd (render e c)) = initRendered c
       \<and> \<not> initialized (snd (render e c)) \<and> pendingInit (snd (render e c))
       \<and> (''_renderLoading'' \<in> set (callables c) \<longrightarrow> fst (render e c) = Inr (renderLoadingResult e))
       \<and> (''_renderLoading'' \<notin> set (callables c) \<longrightarrow>
            fst (render e c) = Inr (JQ \<lparr>ref = nextRef c, nodes = templateEngine e (loadingTemplate c)\<rparr>)
            \<and> fst (render e' (snd (render e c)))
                = Inr (JQ \<lparr>ref = Suc (nextRef c), nodes = templateEngine e' (loadingTemplate c)\<rparr>)
            \<and> jqDom (snd (render e' (snd (render e c))))
                = JQ \<lparr>ref = Suc (nextRef c), nodes = templateEngine e' (loadingTemplate c)\<rparr>
            \<and> initRendered (snd (render e' (snd (render e c)))) = initRendered c)"
proof -
  define c1 where "c1 = snd (render e c)"
  have first: "render e c = (case loadingView e c of (v, c2) \<Rightarrow> (Inr v, c2\<lparr>jqDom := v\<rparr>))"
    using assms by (rule render_loading)
  have p1: "fst (render e c) = Inr (jqDom c1) \<and> initRendered c1 = initRendered c
      \<and> \<not> initialized c1 \<and> pendingInit c1 \<and> callables c1 = callables c
      \<and> loadingTemplate c1 = loadingTemplate c
      \<and> (''_renderLoading'' \<in> set (callables c) \<longrightarrow> fst (render e c) = Inr (renderLoadingResult e))
      \<and> (''_renderLoading'' \<notin> set (callables c) \<longrightarrow> nextRef c1 = Suc (nextRef c)
            \<and> fst (render e c) = Inr (JQ \<lparr>ref = nextRef c, nodes = templateEngine e (loadingTemplate c)\<rparr>))"
    using assms unfolding c1_def by (simp add: first loadingView_def jqueryOf_def)
  have second: "render e' c1 = (case loadingView e' c1 of (v, c2) \<Rightarrow> (Inr v, c2\<lparr>jqDom := v\<rparr>))"
    using p1 by (simp add: render_loading)
  have p2: "''_renderLoading'' \<notin> set (callables c) \<longrightarrow>
      fst (render e' c1) = Inr (JQ \<lparr>ref = Suc (nextRef c), nodes = templateEngine e' (loadingTemplate c)\<rparr>)
      \<and> jqDom (snd (render e' c1)) = JQ \<lparr>ref = Suc (nextRef c), nodes = templateEngine e' (loadingTemplate c)\<rparr>
      \<and> initRendered (snd (render e' c1)) = initRendered c"
    using p1 by (simp add: second loadingView_def jqueryOf_def)
  show ?thesis
    using p1 p2 unfolding c1_def by blast
qed

text \<open>
  The witness: two calls on the sample instance while its init group is pending.
\<close>

theorem C10_witness:
  "\<not> initialized samplePending \<and> pendingInit samplePending
   \<and> fst (render (sampleEnv 10) samplePending) = Inr (JQ \<lparr>ref = 0, nodes = sampleTree 10\<rparr>)
   \<and> fst (render (sampleEnv 20) (snd (render (sampleEnv 10) samplePending)))
        = Inr (JQ \<lparr>ref = 1, nodes = sampleTree 20\<rparr>)
   \<and> jqDom (snd (render (sampleEnv 20) (snd (render (sampleEnv 10) samplePending))))
        = JQ \<lparr>ref = 1, nodes = sampleTree 20\<rparr>
   \<and> \<not> initRendered (snd (render (sampleEnv 20) (snd (render (sampleEnv 10) samplePending))))"
proof -
  have h: "\<not> initialized samplePending" "pendingInit samplePending"
    using samplePending_eval by simp_all
  have k: "''_renderLoading'' \<notin> set (callables samplePending) \<and> nextRef samplePending = 0
       \<and> \<not> initRendered samplePending"
    by (simp add: sample_defs)
  have t: "templateEngine (sampleEnv 10) (loadingTemplate samplePending) = sampleTree 10"
    "templateEngine (sampleEnv 20) (loadingTemplate samplePending) = sampleTree 20"
    by (simp_all add: sampleEnv_def)
  have "fst (render (sampleEnv 10) samplePending)
          = Inr (JQ \<lparr>ref = nextRef samplePending,
                      nodes = templateEngine (sampleEnv 10) (loadingTemplate samplePending)\<rparr>)
      \<and> fst (render (sampleEnv 20) (snd (render (sampleEnv 10) samplePending)))
          = Inr (JQ \<lparr>ref = Suc (nextRef samplePending),
                      nodes = templateEngine (sampleEnv 20) (loadingTemplate samplePending)\<rparr>)
      \<and> jqDom (snd (render (sampleEnv 20) (snd (render (sampleEnv 10) samplePending))))
          = JQ \<lparr>ref = Suc (nextRef samplePending),
                 nodes = templateEngine (sampleEnv 20) (loadingTemplate samplePending)\<rparr>
      \<and> initRendered (snd (render (sampleEnv 20) (snd (render (sampleEnv 10) samplePending))))
          = initRendered samplePending"
    using k C10_loading_render[OF h, of "sampleEnv 10" "sampleEnv 20"] by blast
  then show ?thesis
    using h k by (simp add: t)
qed

end
